theory Spec2Isabelle
  imports
    Complex_Main
    "HOL-Library.Word"
    "HOL-Library.Sublist"
begin

section \<open>JavaScript strings\<close>

text \<open>
  A JavaScript string is a sequence of 16-bit code units. String literals of the source
  are written \<open>js ''...''\<close>; all of them are ASCII, where a character is one code unit.
\<close>

type_synonym code_unit = "16 word"
type_synonym jsstring = "code_unit list"

definition js :: "string \<Rightarrow> jsstring" where
  "js s = map of_char s"

text \<open>
  The code units matched by the regular expression class \<open>\s\<close> and stripped by
  \<open>String.prototype.trim\<close>: ECMAScript's WhiteSpace and LineTerminator productions
  (TAB, LF, VT, FF, CR, SP, NBSP, the other space separators of the BMP, LS, PS, ZWNBSP).
\<close>

definition isWhiteSpace :: "code_unit \<Rightarrow> bool" where
  "isWhiteSpace c \<longleftrightarrow>
     c \<in> {0x9, 0xA, 0xB, 0xC, 0xD, 0x20, 0xA0, 0x1680, 0x2028, 0x2029, 0x202F, 0x205F,
          0x3000, 0xFEFF}
     \<or> (0x2000 \<le> c \<and> c \<le> 0x200A)"

text \<open>\<open>String.prototype.trim\<close>: white space is removed from both ends.\<close>

definition trim :: "jsstring \<Rightarrow> jsstring" where
  "trim s = rev (dropWhile isWhiteSpace (rev (dropWhile isWhiteSpace s)))"

text \<open>
  \<open>Array.prototype.filter\<close> as ECMAScript specifies it: the elements are visited by
  ascending index and those the callback accepts are appended to the result array.
\<close>

fun Array_filter :: "('a \<Rightarrow> bool) \<Rightarrow> 'a list \<Rightarrow> 'a list \<Rightarrow> 'a list" where
  "Array_filter p A [] = A"
| "Array_filter p A (x # xs) = Array_filter p (if p x then A @ [x] else A) xs"


section \<open>The data model of the search modal\<close>

text \<open>
  \<open>EagleItem\<close> is declared in \<open>types.ts\<close>, which is not among the sources; the record
  holds the fields the modal reads.
\<close>

record EagleItem =
  item_id :: jsstring
  item_name :: jsstring
  item_ext :: jsstring
  item_tags :: "jsstring list"
  item_folders :: "jsstring list"
  item_annotation :: jsstring
  item_size :: nat

datatype SearchScope = Name | Tags | Annotation | Folders

text \<open>
  The text shown in the header of the filter row (\<open>libraryNameEl\<close>): the initial
  \<open>Loading...\<close>, the library name, or the library text with the item count.
\<close>

datatype label = Loading | LibraryName jsstring | LibraryCount "jsstring option" nat

text \<open>The two notices \<open>loadItems\<close> can show.\<close>

datatype notice = EagleNotRunning | LoadFailed

text \<open>The three calls \<open>loadItems\<close> makes on the API service.\<close>

datatype request = IsConnected | GetLibraryName | ListItems

text \<open>
  The fields of \<open>EagleSearchModal\<close>, followed by what its methods do to the host:
  the notices shown, whether \<open>close()\<close> was called, the number of \<open>input\<close> events
  dispatched on the input element and of errors logged to the console, and the API
  calls made, in order.
\<close>

record EagleSearchModal =
  allItems :: "EagleItem list"
  isLoading :: bool
  activeScopes :: "SearchScope set"
  activeFileTypes :: "jsstring set"
  libraryNameEl :: "label option"
  notices :: "notice list"
  closed :: bool
  inputEvents :: nat
  consoleErrors :: nat
  requests :: "request list"


section \<open>The plugin settings\<close>

text \<open>
  The configuration of the five cloud providers (\<open>settings.cloudProviders\<close>), with the
  fields the settings tab edits.
\<close>

record R2Config =
  r2_enabled :: bool
  r2_workerUrl :: jsstring
  r2_apiKey :: jsstring
  r2_publicUrl :: jsstring

record ImgHippoConfig =
  imghippo_enabled :: bool
  imghippo_apiKey :: jsstring

record S3Config =
  s3_enabled :: bool
  s3_endpoint :: jsstring
  s3_region :: jsstring
  s3_bucket :: jsstring
  s3_accessKeyId :: jsstring
  s3_secretAccessKey :: jsstring
  s3_publicUrl :: jsstring

record WebDAVConfig =
  webdav_enabled :: bool
  webdav_serverUrl :: jsstring
  webdav_username :: jsstring
  webdav_password :: jsstring
  webdav_uploadPath :: jsstring
  webdav_publicUrl :: jsstring

record CustomConfig =
  custom_enabled :: bool
  custom_uploadUrl :: jsstring
  custom_publicUrl :: jsstring

record CloudProviders =
  r2 :: R2Config
  imghippo :: ImgHippoConfig
  s3 :: S3Config
  webdav :: WebDAVConfig
  custom :: CustomConfig

text \<open>
  The plugin settings (\<open>CMDSPACEEagleSettings\<close> of \<open>types.ts\<close>), with the fields that
  the functions below read and write. \<open>searchScope\<close> and \<open>searchFileTypes\<close> are arrays;
  \<open>tagNormalization\<close> is compared with the string \<open>lowercase\<close>.
\<close>

record CMDSPACEEagleSettings =
  searchScope :: "SearchScope list"
  searchFileTypes :: "jsstring list"
  tagNormalization :: jsstring
  tagPrefix :: jsstring
  cloudProviders :: CloudProviders


section \<open>getItems\<close>

text \<open>
  \<open>toLowerCase\<close> is the host's Unicode case conversion; it is a parameter of the
  model, so that what is proved holds for whatever the host computes.
\<close>

definition getItems :: "(jsstring \<Rightarrow> jsstring) \<Rightarrow> EagleSearchModal \<Rightarrow> EagleItem list" where
  "getItems toLowerCase m =
     Array_filter (\<lambda>item. toLowerCase (item_ext item) \<in> activeFileTypes m) [] (allItems m)"

text \<open>Lowercasing of the ASCII letters, for concrete evaluations.\<close>

definition asciiLower :: "jsstring \<Rightarrow> jsstring" where
  "asciiLower s = map (\<lambda>c. if 0x41 \<le> c \<and> c \<le> 0x5A then c + 0x20 else c) s"


section \<open>Search scopes\<close>

text \<open>
  The click handler that \<open>createScopeButton\<close> installs for \<open>scope\<close>. A \<open>Set\<close> of
  scopes is a set; its \<open>size\<close> is the cardinality.
\<close>

definition scopeButtonClick :: "SearchScope \<Rightarrow> EagleSearchModal \<Rightarrow> EagleSearchModal" where
  "scopeButtonClick scope m =
     (let m' =
        (if scope \<in> activeScopes m then
           (if card (activeScopes m) > 1 then m\<lparr>activeScopes := activeScopes m - {scope}\<rparr>
            else m)
         else m\<lparr>activeScopes := insert scope (activeScopes m)\<rparr>)
      in m'\<lparr>inputEvents := inputEvents m' + 1\<rparr>)"

text \<open>The click handler of a scope button of the settings tab, for the scope \<open>key\<close>.\<close>

definition settingsScopeClick :: "SearchScope \<Rightarrow> CMDSPACEEagleSettings \<Rightarrow> CMDSPACEEagleSettings" where
  "settingsScopeClick key st =
     (if key \<in> set (searchScope st) then
        (if length (searchScope st) > 1
         then st\<lparr>searchScope := filter (\<lambda>s. s \<noteq> key) (searchScope st)\<rparr>
         else st)
      else st\<lparr>searchScope := searchScope st @ [key]\<rparr>)"


section \<open>File types\<close>

text \<open>
  The constants \<open>SUPPORTED_IMAGE_EXTENSIONS\<close>, \<open>SUPPORTED_VIDEO_EXTENSIONS\<close> and
  \<open>SUPPORTED_DOCUMENT_EXTENSIONS\<close> are declared in \<open>types.ts\<close>, which is not among
  the sources: the three arrays are a parameter of every function that reads them.
\<close>

record SupportedExtensions =
  SUPPORTED_IMAGE_EXTENSIONS :: "jsstring list"
  SUPPORTED_VIDEO_EXTENSIONS :: "jsstring list"
  SUPPORTED_DOCUMENT_EXTENSIONS :: "jsstring list"

datatype FileTypeCategory = Images | Videos | Documents | AllTypes

fun getExtensionsForCategory :: "SupportedExtensions \<Rightarrow> FileTypeCategory \<Rightarrow> jsstring list" where
  "getExtensionsForCategory X Images = SUPPORTED_IMAGE_EXTENSIONS X"
| "getExtensionsForCategory X Videos = SUPPORTED_VIDEO_EXTENSIONS X"
| "getExtensionsForCategory X Documents = SUPPORTED_DOCUMENT_EXTENSIONS X"
| "getExtensionsForCategory X AllTypes =
     SUPPORTED_IMAGE_EXTENSIONS X @ SUPPORTED_VIDEO_EXTENSIONS X @ SUPPORTED_DOCUMENT_EXTENSIONS X"

definition isTypeCategoryActive ::
  "SupportedExtensions \<Rightarrow> FileTypeCategory \<Rightarrow> EagleSearchModal \<Rightarrow> bool" where
  "isTypeCategoryActive X category m =
     list_ex (\<lambda>ext. ext \<in> activeFileTypes m) (getExtensionsForCategory X category)"

definition toggleTypeCategory ::
  "SupportedExtensions \<Rightarrow> FileTypeCategory \<Rightarrow> EagleSearchModal \<Rightarrow> EagleSearchModal" where
  "toggleTypeCategory X category m =
     (let extensions = getExtensionsForCategory X category;
          isCurrentlyActive = isTypeCategoryActive X category m
      in if category = AllTypes then
           (if isCurrentlyActive then m\<lparr>activeFileTypes := set (SUPPORTED_IMAGE_EXTENSIONS X)\<rparr>
            else m\<lparr>activeFileTypes :=
                   set (SUPPORTED_IMAGE_EXTENSIONS X @ SUPPORTED_VIDEO_EXTENSIONS X
                        @ SUPPORTED_DOCUMENT_EXTENSIONS X)\<rparr>)
         else if isCurrentlyActive then
           (let remaining = activeFileTypes m - set extensions
            in if remaining = {}
               then m\<lparr>activeFileTypes := remaining \<union> set (SUPPORTED_IMAGE_EXTENSIONS X)\<rparr>
               else m\<lparr>activeFileTypes := remaining\<rparr>)
         else m\<lparr>activeFileTypes := activeFileTypes m \<union> set extensions\<rparr>)"

text \<open>
  The click handler that \<open>createTypeButton\<close> installs: the toggle, then the button
  states are redrawn (no state of the modal changes) and an \<open>input\<close> event is dispatched.
\<close>

definition typeButtonClick ::
  "SupportedExtensions \<Rightarrow> FileTypeCategory \<Rightarrow> EagleSearchModal \<Rightarrow> EagleSearchModal" where
  "typeButtonClick X category m =
     (let m' = toggleTypeCategory X category m in m'\<lparr>inputEvents := inputEvents m' + 1\<rparr>)"

text \<open>
  The settings tab has three type buttons (Images, Videos, Documents) and no button for
  all types. Their click handlers differ only in the array of extensions: the button is
  on when \<open>every\<close> extension of its array is included; a click on an active button
  filters the array's extensions out, a click on an inactive one pushes the missing ones;
  an empty result is replaced by a copy of the image extensions.
\<close>

datatype SettingsTypeButton = ImgBtn | VidBtn | DocBtn

fun buttonExtensions :: "SupportedExtensions \<Rightarrow> SettingsTypeButton \<Rightarrow> jsstring list" where
  "buttonExtensions X ImgBtn = SUPPORTED_IMAGE_EXTENSIONS X"
| "buttonExtensions X VidBtn = SUPPORTED_VIDEO_EXTENSIONS X"
| "buttonExtensions X DocBtn = SUPPORTED_DOCUMENT_EXTENSIONS X"

definition hasAll :: "jsstring list \<Rightarrow> CMDSPACEEagleSettings \<Rightarrow> bool" where
  "hasAll exts st = list_all (\<lambda>ext. ext \<in> set (searchFileTypes st)) exts"

definition pushMissing :: "jsstring list \<Rightarrow> jsstring list \<Rightarrow> jsstring list" where
  "pushMissing exts types = foldl (\<lambda>acc ext. if ext \<in> set acc then acc else acc @ [ext]) types exts"

definition settingsTypeClick ::
  "SupportedExtensions \<Rightarrow> SettingsTypeButton \<Rightarrow> CMDSPACEEagleSettings \<Rightarrow> CMDSPACEEagleSettings" where
  "settingsTypeClick X btn st =
     (let exts = buttonExtensions X btn;
          st' = (if hasAll exts st
                 then st\<lparr>searchFileTypes := filter (\<lambda>ext. ext \<notin> set exts) (searchFileTypes st)\<rparr>
                 else st\<lparr>searchFileTypes := pushMissing exts (searchFileTypes st)\<rparr>)
      in if length (searchFileTypes st') = 0
         then st'\<lparr>searchFileTypes := SUPPORTED_IMAGE_EXTENSIONS X\<rparr>
         else st')"


section \<open>loadItems\<close>

text \<open>
  An awaited call of the API service either returns a value or throws (its promise is
  rejected). What the three calls do is given by the environment.
\<close>

datatype 'a settled = Fulfilled 'a | Rejected

record EagleApiService =
  isConnected :: "bool settled"
  getLibraryName :: "jsstring option settled"
  listItems :: "EagleItem list settled"

text \<open>A library name is truthy when it is neither \<open>null\<close> nor the empty string.\<close>

definition truthy :: "jsstring option \<Rightarrow> bool" where
  "truthy libraryName = (case libraryName of None \<Rightarrow> False | Some s \<Rightarrow> s \<noteq> [])"

text \<open>The statements of \<open>loadItems\<close> between its suspension points.\<close>

definition showLibraryName :: "jsstring option \<Rightarrow> EagleSearchModal \<Rightarrow> EagleSearchModal" where
  "showLibraryName libraryName m =
     (case libraryName of
        None \<Rightarrow> m
      | Some name \<Rightarrow>
          if libraryNameEl m \<noteq> None \<and> truthy libraryName
          then m\<lparr>libraryNameEl := Some (LibraryName name)\<rparr> else m)"

definition storeItems ::
  "jsstring option \<Rightarrow> EagleItem list \<Rightarrow> EagleSearchModal \<Rightarrow> EagleSearchModal" where
  "storeItems libraryName items m =
     (let m1 = m\<lparr>allItems := items\<rparr>;
          m2 = (if libraryNameEl m1 \<noteq> None
                then m1\<lparr>libraryNameEl :=
                       Some (LibraryCount (if truthy libraryName then libraryName else None)
                              (length (allItems m1)))\<rparr>
                else m1)
      in m2\<lparr>inputEvents := inputEvents m2 + 1\<rparr>)"

definition notConnected :: "EagleSearchModal \<Rightarrow> EagleSearchModal" where
  "notConnected m = m\<lparr>notices := notices m @ [EagleNotRunning], closed := True\<rparr>"

definition catchBlock :: "EagleSearchModal \<Rightarrow> EagleSearchModal" where
  "catchBlock m = m\<lparr>consoleErrors := consoleErrors m + 1, notices := notices m @ [LoadFailed]\<rparr>"

definition finallyBlock :: "EagleSearchModal \<Rightarrow> EagleSearchModal" where
  "finallyBlock m = m\<lparr>isLoading := False\<rparr>"

definition call :: "request \<Rightarrow> EagleSearchModal \<Rightarrow> EagleSearchModal" where
  "call r m = m\<lparr>requests := requests m @ [r]\<rparr>"

text \<open>
  One whole run of \<open>loadItems\<close>, nothing else running in between. The \<open>try\<close> block
  yields \<open>Inl\<close> of the state at the throw when an awaited call throws, and \<open>Inr\<close> of
  the state when it completes or returns early.
\<close>

definition tryBlock :: "EagleApiService \<Rightarrow> EagleSearchModal \<Rightarrow> EagleSearchModal + EagleSearchModal" where
  "tryBlock api m =
     (let m = call IsConnected m in
      case isConnected api of
        Rejected \<Rightarrow> Inl m
      | Fulfilled isConn \<Rightarrow>
          if \<not> isConn then Inr (notConnected m)
          else
            (let m = call GetLibraryName m in
             case getLibraryName api of
               Rejected \<Rightarrow> Inl m
             | Fulfilled libraryName \<Rightarrow>
                 (let m = call ListItems (showLibraryName libraryName m) in
                  case listItems api of
                    Rejected \<Rightarrow> Inl m
                  | Fulfilled items \<Rightarrow> Inr (storeItems libraryName items m))))"

definition loadItems :: "EagleApiService \<Rightarrow> EagleSearchModal \<Rightarrow> EagleSearchModal" where
  "loadItems api m =
     (if isLoading m then m
      else finallyBlock
             (case tryBlock api (m\<lparr>isLoading := True\<rparr>) of
                Inl thrown \<Rightarrow> catchBlock thrown
              | Inr done \<Rightarrow> done))"

text \<open>
  \<open>loadItems\<close> is an async function: it runs up to an \<open>await\<close>, and resumes when the
  awaited call settles; other events may run in between. A suspended invocation is the
  \<open>await\<close> it stands at (the last one with its local \<open>libraryName\<close>).
\<close>

datatype await = AwaitIsConnected | AwaitGetLibraryName | AwaitListItems "jsstring option"

datatype response =
  ConnectedIs bool | LibraryNameIs "jsstring option" | ItemsAre "EagleItem list" | Throws

text \<open>An invocation, up to its first \<open>await\<close>; \<open>None\<close> when it returned.\<close>

definition enter :: "EagleSearchModal \<Rightarrow> EagleSearchModal \<times> await option" where
  "enter m =
     (if isLoading m then (m, None)
      else (call IsConnected (m\<lparr>isLoading := True\<rparr>), Some AwaitIsConnected))"

text \<open>
  A suspended invocation resumes with what its call settled with, and runs to its next
  \<open>await\<close> or to its end. A response of another call's type cannot reach it (\<open>None\<close>).
\<close>

fun resume ::
  "await \<Rightarrow> response \<Rightarrow> EagleSearchModal \<Rightarrow> (EagleSearchModal \<times> await option) option" where
  "resume AwaitIsConnected (ConnectedIs isConn) m =
     Some (if \<not> isConn then (finallyBlock (notConnected m), None)
           else (call GetLibraryName m, Some AwaitGetLibraryName))"
| "resume AwaitGetLibraryName (LibraryNameIs libraryName) m =
     Some (call ListItems (showLibraryName libraryName m), Some (AwaitListItems libraryName))"
| "resume (AwaitListItems libraryName) (ItemsAre items) m =
     Some (finallyBlock (storeItems libraryName items m), None)"
| "resume a Throws m = Some (finallyBlock (catchBlock m), None)"
| "resume a r m = None"

text \<open>
  The modal with its suspended invocations of \<open>loadItems\<close>. An event is an invocation
  of \<open>loadItems\<close> or the settling of the call that the \<open>i\<close>-th suspended invocation
  awaits; \<open>fire\<close> is \<open>None\<close> for an event that cannot happen.
\<close>

record running =
  modal :: EagleSearchModal
  suspended :: "await list"

datatype event = Invoke | Settle nat response

fun fire :: "event \<Rightarrow> running \<Rightarrow> running option" where
  "fire Invoke s =
     (case enter (modal s) of
        (m, None) \<Rightarrow> Some (s\<lparr>modal := m\<rparr>)
      | (m, Some a) \<Rightarrow> Some (s\<lparr>modal := m, suspended := suspended s @ [a]\<rparr>))"
| "fire (Settle i r) s =
     (if i < length (suspended s) then
        (case resume (suspended s ! i) r (modal s) of
           None \<Rightarrow> None
         | Some (m, None) \<Rightarrow>
             Some (s\<lparr>modal := m, suspended := take i (suspended s) @ drop (Suc i) (suspended s)\<rparr>)
         | Some (m, Some a) \<Rightarrow> Some (s\<lparr>modal := m, suspended := (suspended s)[i := a]\<rparr>))
      else None)"

fun fireAll :: "event list \<Rightarrow> running \<Rightarrow> running option" where
  "fireAll [] s = Some s"
| "fireAll (e # es) s = (case fire e s of None \<Rightarrow> None | Some s' \<Rightarrow> fireAll es s')"

text \<open>The events of one whole run against an API service.\<close>

definition wholeRun :: "EagleApiService \<Rightarrow> event list" where
  "wholeRun api =
     Invoke #
     (case isConnected api of
        Rejected \<Rightarrow> [Settle 0 Throws]
      | Fulfilled isConn \<Rightarrow>
          Settle 0 (ConnectedIs isConn) #
          (if \<not> isConn then []
           else (case getLibraryName api of
                   Rejected \<Rightarrow> [Settle 0 Throws]
                 | Fulfilled libraryName \<Rightarrow>
                     [Settle 0 (LibraryNameIs libraryName),
                      (case listItems api of
                         Rejected \<Rightarrow> Settle 0 Throws
                       | Fulfilled items \<Rightarrow> Settle 0 (ItemsAre items))])))"


text \<open>
  At most one invocation of \<open>loadItems\<close> is suspended, and \<open>isLoading\<close> is set
  exactly while one is.
\<close>

definition oneLoad :: "running \<Rightarrow> bool" where
  "oneLoad s \<longleftrightarrow> length (suspended s) \<le> 1 \<and> (isLoading (modal s) \<longleftrightarrow> suspended s \<noteq> [])"


section \<open>normalizeTag\<close>

text \<open>
  \<open>tag.replace(/\s+/g, '-')\<close>: scanning from the left, a code unit that is not white
  space is kept; at a white-space code unit the greedy match takes the whole run, which
  is replaced by one hyphen, and the scan goes on behind the run.
\<close>

function replaceWhiteSpaceRuns :: "jsstring \<Rightarrow> jsstring" where
  "replaceWhiteSpaceRuns [] = []"
| "replaceWhiteSpaceRuns (c # cs) =
     (if isWhiteSpace c then 0x2D # replaceWhiteSpaceRuns (dropWhile isWhiteSpace cs)
      else c # replaceWhiteSpaceRuns cs)"
  by pat_completeness auto
termination
  by (relation "measure length") (auto simp: le_imp_less_Suc length_dropWhile_le)

definition normalizeTag :: "(jsstring \<Rightarrow> jsstring) \<Rightarrow> CMDSPACEEagleSettings \<Rightarrow> jsstring \<Rightarrow> jsstring" where
  "normalizeTag toLowerCase st tag =
     (let normalized = replaceWhiteSpaceRuns tag;
          normalized = (if tagNormalization st = js ''lowercase'' then toLowerCase normalized
                        else normalized);
          normalized = (if tagPrefix st \<noteq> [] then tagPrefix st @ js ''/'' @ normalized
                        else normalized)
      in normalized)"


section \<open>formatFileSize\<close>

text \<open>The decimal digits of a non-negative integer, as \<open>Number::toString\<close> writes it.\<close>

fun decimal :: "nat \<Rightarrow> jsstring" where
  "decimal n = (if n < 10 then [0x30 + of_nat n] else decimal (n div 10) @ [0x30 + of_nat (n mod 10)])"

declare decimal.simps [simp del]

text \<open>
  \<open>Number.prototype.toFixed(1)\<close> for a value \<open>0 \<le> x < 10\<^sup>2\<^sup>1\<close>: with \<open>n\<close> the integer
  for which \<open>n / 10 - x\<close> is as close to zero as possible (the larger one if there are two),
  the digits of \<open>n\<close>, padded with zeros on the left to two digits at least, with a point
  before the last one.
\<close>

definition toFixed1 :: "rat \<Rightarrow> jsstring" where
  "toFixed1 x =
     (let n = nat \<lfloor>x * 10 + 1 / 2\<rfloor>;
          m = (if n = 0 then js ''0'' else decimal n);
          m = (if length m \<le> 1 then replicate (2 - length m) 0x30 @ m else m);
          k = length m
      in take (k - 1) m @ js ''.'' @ drop (k - 1) m)"

text \<open>
  \<open>formatFileSize\<close> of the search modal. A byte count is a Number that holds a
  non-negative integer. Every integer below \<open>2\<^sup>5\<^sup>3\<close> is a Number, and dividing a Number by
  a power of two is exact, so \<open>toFixed\<close> is applied to the rational quotient itself.
\<close>

definition formatFileSize :: "nat \<Rightarrow> jsstring" where
  "formatFileSize bytes =
     (if bytes < 1024 then decimal bytes @ js '' B''
      else if bytes < 1024 * 1024 then toFixed1 (of_nat bytes / 1024) @ js '' KB''
      else toFixed1 (of_nat bytes / (1024 * 1024)) @ js '' MB'')"

text \<open>
  The specified value: \<open>bytes / unit\<close> rounded to one decimal, as a number of tenths,
  and a number of tenths written with one decimal.
\<close>

definition roundedTenths :: "nat \<Rightarrow> nat \<Rightarrow> nat" where
  "roundedTenths bytes unit = (10 * bytes + unit div 2) div unit"

definition oneDecimal :: "nat \<Rightarrow> jsstring" where
  "oneDecimal t = decimal (t div 10) @ js ''.'' @ decimal (t mod 10)"


section \<open>pathToFileUrl\<close>

text \<open>
  \<open>encodeURIComponent\<close> throws a \<open>URIError\<close> on a string that is not well formed.
\<close>

datatype uri_error = URIError

text \<open>
  The code units \<open>encodeURIComponent\<close> leaves as they are: the ASCII letters and
  digits and \<open>- _ . ! ~ * ' ( )\<close>.
\<close>

definition uriUnescaped :: "code_unit \<Rightarrow> bool" where
  "uriUnescaped c \<longleftrightarrow>
     (let n = unat c
      in (0x41 \<le> n \<and> n \<le> 0x5A) \<or> (0x61 \<le> n \<and> n \<le> 0x7A) \<or> (0x30 \<le> n \<and> n \<le> 0x39)
         \<or> n \<in> {0x2D, 0x5F, 0x2E, 0x21, 0x7E, 0x2A, 0x27, 0x28, 0x29})"

text \<open>
  Surrogates, and the code point of a surrogate pair (\<open>UTF16SurrogatePairToCodePoint\<close>).
\<close>

definition isLeadingSurrogate :: "code_unit \<Rightarrow> bool" where
  "isLeadingSurrogate c \<longleftrightarrow> 0xD800 \<le> unat c \<and> unat c \<le> 0xDBFF"

definition isTrailingSurrogate :: "code_unit \<Rightarrow> bool" where
  "isTrailingSurrogate c \<longleftrightarrow> 0xDC00 \<le> unat c \<and> unat c \<le> 0xDFFF"

definition surrogatePairToCodePoint :: "code_unit \<Rightarrow> code_unit \<Rightarrow> nat" where
  "surrogatePairToCodePoint lead trail =
     (unat lead - 0xD800) * 0x400 + (unat trail - 0xDC00) + 0x10000"

text \<open>
  The UTF-8 octets of a code point, and an octet as \<open>%\<close> and two upper-case
  hexadecimal digits.
\<close>

definition utf8Encode :: "nat \<Rightarrow> nat list" where
  "utf8Encode cp =
     (if cp < 0x80 then [cp]
      else if cp < 0x800 then [0xC0 + cp div 0x40, 0x80 + cp mod 0x40]
      else if cp < 0x10000 then
        [0xE0 + cp div 0x1000, 0x80 + cp div 0x40 mod 0x40, 0x80 + cp mod 0x40]
      else
        [0xF0 + cp div 0x40000, 0x80 + cp div 0x1000 mod 0x40, 0x80 + cp div 0x40 mod 0x40,
         0x80 + cp mod 0x40])"

definition hexDigit :: "nat \<Rightarrow> code_unit" where
  "hexDigit d = of_nat (if d < 10 then 0x30 + d else 0x41 + (d - 10))"

definition percentEncode :: "nat \<Rightarrow> jsstring" where
  "percentEncode octet = [0x25, hexDigit (octet div 16), hexDigit (octet mod 16)]"

text \<open>
  \<open>emit s r\<close>: the result \<open>r\<close> of encoding the rest, with \<open>s\<close> in front; a throw stays
  a throw.
\<close>

definition emit :: "jsstring \<Rightarrow> uri_error + jsstring \<Rightarrow> uri_error + jsstring" where
  "emit s r = (case r of Inl e \<Rightarrow> Inl e | Inr t \<Rightarrow> Inr (s @ t))"

text \<open>
  \<open>encodeURIComponent\<close> (ECMAScript, Encode): an unescaped code unit is copied; any
  other is read as a code point (a leading surrogate with the trailing surrogate behind
  it), which is written as its percent-encoded UTF-8 octets; an unpaired surrogate
  throws.
\<close>

fun encodeURIComponent :: "jsstring \<Rightarrow> uri_error + jsstring" where
  "encodeURIComponent [] = Inr []"
| "encodeURIComponent (c # cs) =
     (if uriUnescaped c then emit [c] (encodeURIComponent cs)
      else if isTrailingSurrogate c then Inl URIError
      else if isLeadingSurrogate c then
        (case cs of
           [] \<Rightarrow> Inl URIError
         | d # ds \<Rightarrow>
             if isTrailingSurrogate d
             then emit (concat (map percentEncode (utf8Encode (surrogatePairToCodePoint c d))))
                    (encodeURIComponent ds)
             else Inl URIError)
      else emit (concat (map percentEncode (utf8Encode (unat c)))) (encodeURIComponent cs))"

text \<open>
  \<open>path.split('/')\<close> for a separator of one code unit, scanning from the left with
  the segment read so far; \<open>join\<close> is \<open>Array.prototype.join\<close>, and \<open>mapResult\<close> is
  \<open>Array.prototype.map\<close> with a callback that may throw.
\<close>

fun splitOn :: "code_unit \<Rightarrow> jsstring \<Rightarrow> jsstring \<Rightarrow> jsstring list" where
  "splitOn sep seg [] = [seg]"
| "splitOn sep seg (c # cs) =
     (if c = sep then seg # splitOn sep [] cs else splitOn sep (seg @ [c]) cs)"

definition split :: "code_unit \<Rightarrow> jsstring \<Rightarrow> jsstring list" where
  "split sep s = splitOn sep [] s"

fun join :: "jsstring \<Rightarrow> jsstring list \<Rightarrow> jsstring" where
  "join sep [] = []"
| "join sep [s] = s"
| "join sep (s # ss) = s @ sep @ join sep ss"

fun mapResult :: "('a \<Rightarrow> uri_error + 'b) \<Rightarrow> 'a list \<Rightarrow> uri_error + 'b list" where
  "mapResult f [] = Inr []"
| "mapResult f (x # xs) =
     (case f x of
        Inl e \<Rightarrow> Inl e
      | Inr y \<Rightarrow> (case mapResult f xs of Inl e \<Rightarrow> Inl e | Inr ys \<Rightarrow> Inr (y # ys)))"

text \<open>
  \<open>pathToFileUrl\<close> of the search modal.
\<close>

definition pathToFileUrl :: "jsstring \<Rightarrow> uri_error + jsstring" where
  "pathToFileUrl path =
     (case mapResult encodeURIComponent (split 0x2F path) of
        Inl e \<Rightarrow> Inl e
      | Inr encoded \<Rightarrow> Inr (js ''file://'' @ join (js ''/'') encoded))"

text \<open>
  Percent-decoding, for the round trip: \<open>decodeURIComponent\<close> as ECMAScript defines
  it (Decode). An escape \<open>%XX\<close> is one octet; an octet with leading one bits starts a
  UTF-8 sequence of that many octets, which must be escapes and must be the UTF-8
  encoding of a code point (shortest form, no surrogate, at most \<open>10FFFF\<close>); the code
  point is written in UTF-16. Anything else throws.
\<close>

definition hexValue :: "code_unit \<Rightarrow> nat option" where
  "hexValue c =
     (let n = unat c
      in if 0x30 \<le> n \<and> n \<le> 0x39 then Some (n - 0x30)
         else if 0x41 \<le> n \<and> n \<le> 0x46 then Some (n - 0x41 + 10)
         else if 0x61 \<le> n \<and> n \<le> 0x66 then Some (n - 0x61 + 10)
         else None)"

definition parseHexOctet :: "code_unit \<Rightarrow> code_unit \<Rightarrow> nat option" where
  "parseHexOctet h1 h2 =
     (case hexValue h1 of
        None \<Rightarrow> None
      | Some a \<Rightarrow> (case hexValue h2 of None \<Rightarrow> None | Some b \<Rightarrow> Some (16 * a + b)))"

fun continuationOctets :: "nat \<Rightarrow> jsstring \<Rightarrow> (nat list \<times> jsstring) option" where
  "continuationOctets 0 s = Some ([], s)"
| "continuationOctets (Suc n) (p # h1 # h2 # s) =
     (if p = 0x25 then
        (case parseHexOctet h1 h2 of
           None \<Rightarrow> None
         | Some b \<Rightarrow>
             (case continuationOctets n s of
                None \<Rightarrow> None
              | Some (bs, r) \<Rightarrow> Some (b # bs, r)))
      else None)"
| "continuationOctets (Suc n) s = None"

definition leadingOnes :: "nat \<Rightarrow> nat" where
  "leadingOnes b =
     (if b < 0x80 then 0 else if b < 0xC0 then 1 else if b < 0xE0 then 2
      else if b < 0xF0 then 3 else if b < 0xF8 then 4 else 5)"

definition isContinuation :: "nat \<Rightarrow> bool" where
  "isContinuation b \<longleftrightarrow> 0x80 \<le> b \<and> b < 0xC0"

fun utf8Decode :: "nat list \<Rightarrow> nat option" where
  "utf8Decode [b0, b1] =
     (if 0xC2 \<le> b0 \<and> b0 < 0xE0 \<and> isContinuation b1
      then Some ((b0 - 0xC0) * 0x40 + (b1 - 0x80)) else None)"
| "utf8Decode [b0, b1, b2] =
     (let cp = (b0 - 0xE0) * 0x1000 + (b1 - 0x80) * 0x40 + (b2 - 0x80)
      in if 0xE0 \<le> b0 \<and> b0 < 0xF0 \<and> isContinuation b1 \<and> isContinuation b2
            \<and> 0x800 \<le> cp \<and> \<not> (0xD800 \<le> cp \<and> cp \<le> 0xDFFF)
         then Some cp else None)"
| "utf8Decode [b0, b1, b2, b3] =
     (let cp = (b0 - 0xF0) * 0x40000 + (b1 - 0x80) * 0x1000 + (b2 - 0x80) * 0x40 + (b3 - 0x80)
      in if 0xF0 \<le> b0 \<and> b0 < 0xF8 \<and> isContinuation b1 \<and> isContinuation b2
            \<and> isContinuation b3 \<and> 0x10000 \<le> cp \<and> cp \<le> 0x10FFFF
         then Some cp else None)"
| "utf8Decode bs = None"

definition utf16Encode :: "nat \<Rightarrow> jsstring" where
  "utf16Encode cp =
     (if cp < 0x10000 then [of_nat cp]
      else [of_nat (0xD800 + (cp - 0x10000) div 0x400),
            of_nat (0xDC00 + (cp - 0x10000) mod 0x400)])"

lemma continuationOctets_length:
  "continuationOctets n s = Some (bs, r) \<Longrightarrow> length r \<le> length s"
proof (induction n s arbitrary: bs r rule: continuationOctets.induct)
  case (2 n p h1 h2 s)
  from "2.prems" obtain b bs' where
    "p = 0x25" and "parseHexOctet h1 h2 = Some b" and "continuationOctets n s = Some (bs', r)"
    by (auto split: if_splits option.splits)
  with "2.IH" have "length r \<le> length s"
    by blast
  then show ?case
    by simp
qed simp_all

function decodeURIComponent :: "jsstring \<Rightarrow> uri_error + jsstring" where
  "decodeURIComponent [] = Inr []"
| "decodeURIComponent (c # cs) =
     (if c \<noteq> 0x25 then emit [c] (decodeURIComponent cs)
      else
        (case cs of
           h1 # h2 # rest \<Rightarrow>
             (case parseHexOctet h1 h2 of
                None \<Rightarrow> Inl URIError
              | Some b \<Rightarrow>
                  if leadingOnes b = 0 then emit [of_nat b] (decodeURIComponent rest)
                  else if leadingOnes b = 1 \<or> leadingOnes b > 4 then Inl URIError
                  else
                    (case continuationOctets (leadingOnes b - 1) rest of
                       None \<Rightarrow> Inl URIError
                     | Some (bs, rest') \<Rightarrow>
                         (case utf8Decode (b # bs) of
                            None \<Rightarrow> Inl URIError
                          | Some cp \<Rightarrow> emit (utf16Encode cp) (decodeURIComponent rest'))))
         | _ \<Rightarrow> Inl URIError))"
  by pat_completeness auto
termination
  by (relation "measure length") (auto dest: continuationOctets_length simp: le_imp_less_Suc)

text \<open>
  The way back, in the words of the specification: strip the prefix \<open>file://\<close>, split
  on \<open>/\<close>, percent-decode each segment (and join the segments with \<open>/\<close>).
\<close>

definition fileUrlToPath :: "jsstring \<Rightarrow> uri_error + jsstring" where
  "fileUrlToPath url =
     (case mapResult decodeURIComponent (split 0x2F (drop (length (js ''file://'')) url)) of
        Inl e \<Rightarrow> Inl e
      | Inr decoded \<Rightarrow> Inr (join (js ''/'') decoded))"

text \<open>
  \<open>String.prototype.isWellFormed\<close>: the string has no unpaired surrogate.
\<close>

fun isWellFormed :: "jsstring \<Rightarrow> bool" where
  "isWellFormed [] = True"
| "isWellFormed (c # cs) =
     (if isLeadingSurrogate c then
        (case cs of [] \<Rightarrow> False | d # ds \<Rightarrow> isTrailingSurrogate d \<and> isWellFormed ds)
      else \<not> isTrailingSurrogate c \<and> isWellFormed cs)"


section \<open>The cloud provider settings\<close>

text \<open>\<open>url.replace(/\/$/, '')\<close>: one slash at the very end is removed.\<close>

definition stripTrailingSlash :: "jsstring \<Rightarrow> jsstring" where
  "stripTrailingSlash url = (if url \<noteq> [] \<and> last url = 0x2F then butlast url else url)"

definition startsWith :: "jsstring \<Rightarrow> jsstring \<Rightarrow> bool" where
  "startsWith s p = (take (length p) s = p)"

text \<open>
  The text fields of the five provider sections of the settings tab; an edit of a field
  runs its \<open>onChange\<close> handler with the field's new text.
\<close>

datatype field =
    R2WorkerUrl | R2ApiKey | R2PublicUrl
  | ImgHippoApiKey
  | S3Endpoint | S3Region | S3Bucket | S3AccessKeyId | S3SecretAccessKey | S3PublicUrl
  | WebDAVServerUrl | WebDAVUsername | WebDAVPassword | WebDAVUploadPath | WebDAVPublicUrl
  | CustomUploadUrl | CustomPublicUrl

fun onChange :: "field \<Rightarrow> jsstring \<Rightarrow> CloudProviders \<Rightarrow> CloudProviders" where
  "onChange R2WorkerUrl v c =
     (let url = trim v;
          url = (if url \<noteq> [] \<and> \<not> startsWith url (js ''http'') then js ''https://'' @ url else url);
          url = stripTrailingSlash url
      in c\<lparr>r2 := (r2 c)\<lparr>r2_workerUrl := url,
                          r2_enabled := (url \<noteq> [] \<and> r2_apiKey (r2 c) \<noteq> [])\<rparr>\<rparr>)"
| "onChange R2ApiKey v c =
     c\<lparr>r2 := (r2 c)\<lparr>r2_apiKey := trim v,
                      r2_enabled := (r2_workerUrl (r2 c) \<noteq> [] \<and> trim v \<noteq> [])\<rparr>\<rparr>"
| "onChange R2PublicUrl v c =
     c\<lparr>r2 := (r2 c)\<lparr>r2_publicUrl := stripTrailingSlash (trim v)\<rparr>\<rparr>"
| "onChange ImgHippoApiKey v c =
     c\<lparr>imghippo := (imghippo c)\<lparr>imghippo_apiKey := trim v,
                                  imghippo_enabled := (trim v \<noteq> [])\<rparr>\<rparr>"
| "onChange S3Endpoint v c = c\<lparr>s3 := (s3 c)\<lparr>s3_endpoint := trim v\<rparr>\<rparr>"
| "onChange S3Region v c = c\<lparr>s3 := (s3 c)\<lparr>s3_region := trim v\<rparr>\<rparr>"
| "onChange S3Bucket v c = c\<lparr>s3 := (s3 c)\<lparr>s3_bucket := trim v\<rparr>\<rparr>"
| "onChange S3AccessKeyId v c = c\<lparr>s3 := (s3 c)\<lparr>s3_accessKeyId := trim v\<rparr>\<rparr>"
| "onChange S3SecretAccessKey v c =
     c\<lparr>s3 := (s3 c)\<lparr>s3_secretAccessKey := trim v,
                      s3_enabled := (s3_endpoint (s3 c) \<noteq> [] \<and> s3_accessKeyId (s3 c) \<noteq> []
                                     \<and> trim v \<noteq> [])\<rparr>\<rparr>"
| "onChange S3PublicUrl v c = c\<lparr>s3 := (s3 c)\<lparr>s3_publicUrl := trim v\<rparr>\<rparr>"
| "onChange WebDAVServerUrl v c = c\<lparr>webdav := (webdav c)\<lparr>webdav_serverUrl := trim v\<rparr>\<rparr>"
| "onChange WebDAVUsername v c = c\<lparr>webdav := (webdav c)\<lparr>webdav_username := trim v\<rparr>\<rparr>"
| "onChange WebDAVPassword v c =
     c\<lparr>webdav := (webdav c)\<lparr>webdav_password := v,
                              webdav_enabled := (webdav_serverUrl (webdav c) \<noteq> []
                                                 \<and> webdav_username (webdav c) \<noteq> [] \<and> v \<noteq> [])\<rparr>\<rparr>"
| "onChange WebDAVUploadPath v c =
     c\<lparr>webdav := (webdav c)\<lparr>webdav_uploadPath :=
                                (if trim v \<noteq> [] then trim v else js ''/eagle-uploads'')\<rparr>\<rparr>"
| "onChange WebDAVPublicUrl v c = c\<lparr>webdav := (webdav c)\<lparr>webdav_publicUrl := trim v\<rparr>\<rparr>"
| "onChange CustomUploadUrl v c =
     c\<lparr>custom := (custom c)\<lparr>custom_uploadUrl := trim v, custom_enabled := (trim v \<noteq> [])\<rparr>\<rparr>"
| "onChange CustomPublicUrl v c = c\<lparr>custom := (custom c)\<lparr>custom_publicUrl := trim v\<rparr>\<rparr>"

fun edits :: "(field \<times> jsstring) list \<Rightarrow> CloudProviders \<Rightarrow> CloudProviders" where
  "edits [] c = c"
| "edits ((f, v) # es) c = edits es (onChange f v c)"

text \<open>
  The specified meaning of the \<open>enabled\<close> flags of R2, S3 and WebDAV: all required
  credentials are set.
\<close>

definition r2Configured :: "CloudProviders \<Rightarrow> bool" where
  "r2Configured c \<longleftrightarrow> r2_workerUrl (r2 c) \<noteq> [] \<and> r2_apiKey (r2 c) \<noteq> []"

definition s3Configured :: "CloudProviders \<Rightarrow> bool" where
  "s3Configured c \<longleftrightarrow>
     s3_endpoint (s3 c) \<noteq> [] \<and> s3_accessKeyId (s3 c) \<noteq> [] \<and> s3_secretAccessKey (s3 c) \<noteq> []"

definition webdavConfigured :: "CloudProviders \<Rightarrow> bool" where
  "webdavConfigured c \<longleftrightarrow>
     webdav_serverUrl (webdav c) \<noteq> [] \<and> webdav_username (webdav c) \<noteq> []
     \<and> webdav_password (webdav c) \<noteq> []"


section \<open>ImagePasteChoiceModal\<close>

datatype choice = Eagle | Local | Cloud | Cancel

record ImagePasteChoiceResponse =
  choice :: choice
  rememberChoice :: bool

text \<open>\<open>Partial<ImagePasteChoiceResponse>\<close>: each field may be absent.\<close>

record PartialResponse =
  p_choice :: "choice option"
  p_rememberChoice :: "bool option"

text \<open>
  The modal's fields, and the promises \<open>getResponse\<close> has returned: the \<open>k\<close>-th one is
  \<open>None\<close> while pending and \<open>Some v\<close> once resolved with \<open>v\<close>. \<open>resolvePromise\<close> holds
  the resolving function of one of them, given by its index.
\<close>

record ImagePasteChoiceModal =
  response :: PartialResponse
  resolvePromise :: "nat option"
  promises :: "ImagePasteChoiceResponse option list"

text \<open>The field initialisers.\<close>

definition newModal :: ImagePasteChoiceModal where
  "newModal =
     \<lparr>response = \<lparr>p_choice = None, p_rememberChoice = Some False\<rparr>,
      resolvePromise = None, promises = []\<rparr>"

text \<open>Calling a promise's resolving function settles it unless it is settled already.\<close>

definition resolve ::
  "nat \<Rightarrow> ImagePasteChoiceResponse \<Rightarrow> ImagePasteChoiceResponse option list
   \<Rightarrow> ImagePasteChoiceResponse option list" where
  "resolve k v ps = (if k < length ps \<and> ps ! k = None then ps[k := Some v] else ps)"

definition onClose :: "ImagePasteChoiceModal \<Rightarrow> ImagePasteChoiceModal" where
  "onClose m =
     (case resolvePromise m of
        None \<Rightarrow> m
      | Some k \<Rightarrow>
          m\<lparr>promises :=
              resolve k
                \<lparr>choice = (case p_choice (response m) of None \<Rightarrow> Cancel | Some c \<Rightarrow> c),
                 rememberChoice =
                   (case p_rememberChoice (response m) of None \<Rightarrow> False | Some b \<Rightarrow> b)\<rparr>
                (promises m)\<rparr>)"

definition getResponse :: "ImagePasteChoiceModal \<Rightarrow> ImagePasteChoiceModal \<times> nat" where
  "getResponse m =
     (m\<lparr>resolvePromise := Some (length (promises m)), promises := promises m @ [None]\<rparr>,
      length (promises m))"

text \<open>
  What happens to an open modal: the caller asks for the response, the user switches the
  toggle, clicks one of the three buttons (the handler stores the choice and closes the
  modal), or dismisses the modal (the host closes it). Closing runs \<open>onClose\<close>.
\<close>

datatype button = EagleBtn | LocalBtn | CloudBtn

fun buttonChoice :: "button \<Rightarrow> choice" where
  "buttonChoice EagleBtn = Eagle"
| "buttonChoice LocalBtn = Local"
| "buttonChoice CloudBtn = Cloud"

datatype paste_event = GetResponse | Toggle bool | Click button | Dismiss

fun handle :: "paste_event \<Rightarrow> ImagePasteChoiceModal \<Rightarrow> ImagePasteChoiceModal" where
  "handle GetResponse m = fst (getResponse m)"
| "handle (Toggle v) m = m\<lparr>response := (response m)\<lparr>p_rememberChoice := Some v\<rparr>\<rparr>"
| "handle (Click b) m = onClose (m\<lparr>response := (response m)\<lparr>p_choice := Some (buttonChoice b)\<rparr>\<rparr>)"
| "handle Dismiss m = onClose m"

definition handleAll :: "paste_event list \<Rightarrow> ImagePasteChoiceModal \<Rightarrow> ImagePasteChoiceModal" where
  "handleAll es m = foldl (\<lambda>m e. handle e m) m es"

text \<open>An event that closes the modal, and the choice it stands for.\<close>

fun closes :: "paste_event \<Rightarrow> bool" where
  "closes (Click b) = True"
| "closes Dismiss = True"
| "closes e = False"

fun closingChoice :: "paste_event \<Rightarrow> choice" where
  "closingChoice (Click b) = buttonChoice b"
| "closingChoice e = Cancel"

text \<open>The position of the toggle after the events, off at first.\<close>

fun switch :: "bool \<Rightarrow> paste_event \<Rightarrow> bool" where
  "switch v (Toggle b) = b"
| "switch v e = v"

definition toggled :: "paste_event list \<Rightarrow> bool" where
  "toggled es = foldl switch False es"

text \<open>While the modal is open (no closing event yet).\<close>

definition whileOpen :: "paste_event list \<Rightarrow> ImagePasteChoiceModal \<Rightarrow> bool" where
  "whileOpen es m \<longleftrightarrow>
     p_choice (response m) = None
     \<and> p_rememberChoice (response m) = Some (toggled es)
     \<and> length (promises m) = count_list es GetResponse
     \<and> list_all (\<lambda>p. p = None) (promises m)
     \<and> resolvePromise m = (if promises m = [] then None else Some (length (promises m) - 1))"


section \<open>Example data\<close>

text \<open>Concrete values on which the theorems below are instantiated.\<close>

definition exampleExtensions :: SupportedExtensions where
  "exampleExtensions =
     \<lparr>SUPPORTED_IMAGE_EXTENSIONS = [js ''png'', js ''jpg''],
      SUPPORTED_VIDEO_EXTENSIONS = [js ''mp4''],
      SUPPORTED_DOCUMENT_EXTENSIONS = [js ''pdf'']\<rparr>"

definition exampleModal :: EagleSearchModal where
  "exampleModal =
     \<lparr>allItems = [], isLoading = False, activeScopes = {Name, Tags},
      activeFileTypes = {js ''mp4''}, libraryNameEl = Some Loading, notices = [],
      closed = False, inputEvents = 0, consoleErrors = 0, requests = []\<rparr>"

definition emptyProviders :: CloudProviders where
  "emptyProviders =
     \<lparr>r2 = \<lparr>r2_enabled = False, r2_workerUrl = [], r2_apiKey = [], r2_publicUrl = []\<rparr>,
      imghippo = \<lparr>imghippo_enabled = False, imghippo_apiKey = []\<rparr>,
      s3 = \<lparr>s3_enabled = False, s3_endpoint = [], s3_region = [], s3_bucket = [],
            s3_accessKeyId = [], s3_secretAccessKey = [], s3_publicUrl = []\<rparr>,
      webdav = \<lparr>webdav_enabled = False, webdav_serverUrl = [], webdav_username = [],
                webdav_password = [], webdav_uploadPath = [], webdav_publicUrl = []\<rparr>,
      custom = \<lparr>custom_enabled = False, custom_uploadUrl = [], custom_publicUrl = []\<rparr>\<rparr>"

definition exampleSettings :: CMDSPACEEagleSettings where
  "exampleSettings =
     \<lparr>searchScope = [Name, Tags], searchFileTypes = [js ''mp4''],
      tagNormalization = js ''lowercase'', tagPrefix = js ''eagle'',
      cloudProviders = emptyProviders\<rparr>"

definition exampleApi :: EagleApiService where
  "exampleApi = \<lparr>isConnected = Fulfilled True, getLibraryName = Fulfilled (Some (js ''Lib'')),
                 listItems = Rejected\<rparr>"

definition exampleSuspended :: running where
  "exampleSuspended =
     \<lparr>modal = exampleModal\<lparr>isLoading := True, requests := [IsConnected, GetLibraryName]\<rparr>,
      suspended = [AwaitGetLibraryName]\<rparr>"

definition examplePath :: jsstring where
  "examplePath = js ''/Users/me/My Library/'' @ [0xE9, 0x20AC, 0xD83D, 0xDCDA] @ js ''.png''"


section \<open>Properties of getItems\<close>

lemma Array_filter_eq: "Array_filter p A xs = A @ filter p xs"
  by (induction xs arbitrary: A) simp_all

lemma count_list_filter:
  "count_list (filter p xs) x = (if p x then count_list xs x else 0)"
  by (induction xs) auto

text \<open>
  C1. \<open>getItems\<close> returns exactly the loaded items whose lowercased extension is in the
  active file-type set, in the order of the loaded list: it is the filter of \<open>allItems\<close>
  by that one predicate, hence a subsequence of \<open>allItems\<close> that keeps every occurrence
  of an item satisfying the predicate and none of an item failing it.
\<close>

theorem getItems_linear_scan:
  "getItems lc m = filter (\<lambda>item. lc (item_ext item) \<in> activeFileTypes m) (allItems m)
   \<and> subseq (getItems lc m) (allItems m)
   \<and> (\<forall>item. count_list (getItems lc m) item =
        (if lc (item_ext item) \<in> activeFileTypes m then count_list (allItems m) item else 0))"
proof -
  let ?p = "\<lambda>item. lc (item_ext item) \<in> activeFileTypes m"
  have eq: "getItems lc m = filter ?p (allItems m)"
    by (simp add: getItems_def Array_filter_eq)
  show ?thesis
    unfolding eq by (simp add: count_list_filter)
qed

section \<open>The filter sets are never empty\<close>

lemma finite_scopes: "finite (S :: SearchScope set)"
proof -
  have "(UNIV :: SearchScope set) = {Name, Tags, Annotation, Folders}"
    using SearchScope.exhaust by auto
  moreover have "finite {Name, Tags, Annotation, Folders}"
    by simp
  ultimately have "finite (UNIV :: SearchScope set)"
    by metis
  then show ?thesis
    using finite_subset subset_UNIV by blast
qed

lemma scopeButtonClick_nonempty:
  assumes "activeScopes m \<noteq> {}"
  shows "activeScopes (scopeButtonClick scope m) \<noteq> {}"
proof (cases "scope \<in> activeScopes m \<and> card (activeScopes m) > 1")
  case True
  then have "card (activeScopes m - {scope}) = card (activeScopes m) - 1"
    by (simp add: finite_scopes)
  with True have "card (activeScopes m - {scope}) > 0"
    by simp
  then have "activeScopes m - {scope} \<noteq> {}"
    by (metis card.empty less_irrefl)
  with True show ?thesis
    by (simp add: scopeButtonClick_def)
next
  case False
  with assms show ?thesis
    by (auto simp: scopeButtonClick_def)
qed

lemma scopeButtonClicks_nonempty:
  "activeScopes m \<noteq> {} \<Longrightarrow> activeScopes (foldl (\<lambda>m k. scopeButtonClick k m) m clicks) \<noteq> {}"
  by (induction clicks arbitrary: m) (simp_all add: scopeButtonClick_nonempty)

lemma settingsScopeClick_inv:
  assumes "searchScope st \<noteq> []" and "distinct (searchScope st)"
  shows "searchScope (settingsScopeClick key st) \<noteq> []
         \<and> distinct (searchScope (settingsScopeClick key st))"
proof (cases "key \<in> set (searchScope st) \<and> length (searchScope st) > 1")
  case True
  with assms(2) have "card (set (searchScope st)) > 1"
    by (simp add: distinct_card)
  then obtain other where "other \<in> set (searchScope st)" "other \<noteq> key"
    by (metis One_nat_def card.empty is_singletonI' is_singleton_altdef less_irrefl
        less_nat_zero_code)
  then have "other \<in> set (filter (\<lambda>s. s \<noteq> key) (searchScope st))"
    by simp
  then have "filter (\<lambda>s. s \<noteq> key) (searchScope st) \<noteq> []"
    by (metis empty_iff empty_set)
  with True assms(2) show ?thesis
    by (simp add: settingsScopeClick_def)
next
  case False
  with assms show ?thesis
    by (auto simp: settingsScopeClick_def)
qed

lemma settingsScopeClicks_inv:
  "searchScope st \<noteq> [] \<Longrightarrow> distinct (searchScope st) \<Longrightarrow>
   searchScope (foldl (\<lambda>st k. settingsScopeClick k st) st clicks) \<noteq> []
   \<and> distinct (searchScope (foldl (\<lambda>st k. settingsScopeClick k st) st clicks))"
  by (induction clicks arbitrary: st) (simp_all add: settingsScopeClick_inv)

text \<open>
  C8. The active search scopes are never empty. In the modal, from any non-empty set of
  scopes, every sequence of scope-button clicks leaves the set non-empty, and a click on
  the only active scope leaves it as it is. In the settings tab, where the scopes are an
  array, from any non-empty array without repeated entries (an array that is a set),
  every sequence of scope-button clicks leaves the array non-empty and without repeated
  entries, and a click on the only entry leaves it as it is.
\<close>

theorem active_scopes_never_empty:
  "(activeScopes m \<noteq> {} \<longrightarrow>
      activeScopes (foldl (\<lambda>m k. scopeButtonClick k m) m clicks) \<noteq> {})
   \<and> (activeScopes m = {scope} \<longrightarrow> activeScopes (scopeButtonClick scope m) = {scope})
   \<and> (searchScope st \<noteq> [] \<and> distinct (searchScope st) \<longrightarrow>
      searchScope (foldl (\<lambda>st k. settingsScopeClick k st) st clicks) \<noteq> []
      \<and> distinct (searchScope (foldl (\<lambda>st k. settingsScopeClick k st) st clicks)))
   \<and> (searchScope st = [key] \<longrightarrow> searchScope (settingsScopeClick key st) = [key])"
proof -
  have "activeScopes m = {scope} \<longrightarrow> activeScopes (scopeButtonClick scope m) = {scope}"
    by (simp add: scopeButtonClick_def)
  moreover have "searchScope st = [key] \<longrightarrow> searchScope (settingsScopeClick key st) = [key]"
    by (simp add: settingsScopeClick_def)
  ultimately show ?thesis
    using scopeButtonClicks_nonempty settingsScopeClicks_inv by blast
qed

theorem active_scopes_never_empty_witness:
  "activeScopes (foldl (\<lambda>m k. scopeButtonClick k m) exampleModal [Name, Tags, Tags]) \<noteq> {}
   \<and> activeScopes (scopeButtonClick Tags (exampleModal\<lparr>activeScopes := {Tags}\<rparr>)) = {Tags}
   \<and> searchScope (foldl (\<lambda>st k. settingsScopeClick k st) exampleSettings [Name, Tags, Tags])
       \<noteq> []
   \<and> searchScope (settingsScopeClick Tags (exampleSettings\<lparr>searchScope := [Tags]\<rparr>)) = [Tags]"
  using active_scopes_never_empty [of exampleModal "[Name, Tags, Tags]" Tags exampleSettings Tags]
    active_scopes_never_empty [of "exampleModal\<lparr>activeScopes := {Tags}\<rparr>" "[]" Tags
      "exampleSettings\<lparr>searchScope := [Tags]\<rparr>" Tags]
  by (simp add: exampleModal_def exampleSettings_def)

lemma toggleTypeCategory_nonempty:
  assumes "SUPPORTED_IMAGE_EXTENSIONS X \<noteq> []" and "activeFileTypes m \<noteq> {}"
  shows "activeFileTypes (toggleTypeCategory X category m) \<noteq> {}"
  using assms by (auto simp: toggleTypeCategory_def Let_def)

lemma typeButtonClicks_nonempty:
  "SUPPORTED_IMAGE_EXTENSIONS X \<noteq> [] \<Longrightarrow> activeFileTypes m \<noteq> {} \<Longrightarrow>
   activeFileTypes (foldl (\<lambda>m c. typeButtonClick X c m) m clicks) \<noteq> {}"
  by (induction clicks arbitrary: m)
     (simp_all add: typeButtonClick_def Let_def toggleTypeCategory_nonempty)

lemma toggle_last_category_resets:
  assumes "category \<noteq> AllTypes" and "isTypeCategoryActive X category m"
    and "activeFileTypes m \<subseteq> set (getExtensionsForCategory X category)"
  shows "activeFileTypes (toggleTypeCategory X category m) = set (SUPPORTED_IMAGE_EXTENSIONS X)"
  using assms by (auto simp: toggleTypeCategory_def Let_def)

lemma settingsTypeClick_nonempty:
  "SUPPORTED_IMAGE_EXTENSIONS X \<noteq> [] \<Longrightarrow> searchFileTypes (settingsTypeClick X btn st) \<noteq> []"
  by (simp add: settingsTypeClick_def Let_def)

lemma settingsTypeClicks_nonempty:
  "SUPPORTED_IMAGE_EXTENSIONS X \<noteq> [] \<Longrightarrow> searchFileTypes st \<noteq> [] \<Longrightarrow>
   searchFileTypes (foldl (\<lambda>st b. settingsTypeClick X b st) st btns) \<noteq> []"
  by (induction btns arbitrary: st) (simp_all add: settingsTypeClick_nonempty)

lemma settings_last_category_resets:
  assumes "hasAll (buttonExtensions X btn) st"
    and "set (searchFileTypes st) \<subseteq> set (buttonExtensions X btn)"
  shows "searchFileTypes (settingsTypeClick X btn st) = SUPPORTED_IMAGE_EXTENSIONS X"
proof -
  from assms(2) have "filter (\<lambda>ext. ext \<notin> set (buttonExtensions X btn)) (searchFileTypes st) = []"
    by (auto simp: filter_empty_conv)
  with assms(1) show ?thesis
    by (simp add: settingsTypeClick_def Let_def)
qed

text \<open>
  C9. The active file types are never empty, provided the array of supported image
  extensions (declared outside the sources) is not empty. In the modal, from any
  non-empty set, every sequence of clicks on the four type buttons leaves the set
  non-empty; a toggle of an active category that would remove every active type leaves
  exactly the image extensions, and so does turning \<open>all\<close> off. In the settings tab,
  from any non-empty array, every sequence of clicks on its three type buttons leaves
  the array non-empty, and a click that would remove every entry leaves the image
  extensions.
\<close>

theorem active_file_types_never_empty:
  assumes "SUPPORTED_IMAGE_EXTENSIONS X \<noteq> []"
  shows
  "(activeFileTypes m \<noteq> {} \<longrightarrow>
      activeFileTypes (foldl (\<lambda>m c. typeButtonClick X c m) m clicks) \<noteq> {})
   \<and> (category \<noteq> AllTypes \<and> isTypeCategoryActive X category m
       \<and> activeFileTypes m \<subseteq> set (getExtensionsForCategory X category) \<longrightarrow>
      activeFileTypes (toggleTypeCategory X category m) = set (SUPPORTED_IMAGE_EXTENSIONS X))
   \<and> (isTypeCategoryActive X AllTypes m \<longrightarrow>
      activeFileTypes (toggleTypeCategory X AllTypes m) = set (SUPPORTED_IMAGE_EXTENSIONS X))
   \<and> (searchFileTypes st \<noteq> [] \<longrightarrow>
      searchFileTypes (foldl (\<lambda>st b. settingsTypeClick X b st) st btns) \<noteq> [])
   \<and> (hasAll (buttonExtensions X btn) st
       \<and> set (searchFileTypes st) \<subseteq> set (buttonExtensions X btn) \<longrightarrow>
      searchFileTypes (settingsTypeClick X btn st) = SUPPORTED_IMAGE_EXTENSIONS X)"
proof -
  have "isTypeCategoryActive X AllTypes m \<longrightarrow>
      activeFileTypes (toggleTypeCategory X AllTypes m) = set (SUPPORTED_IMAGE_EXTENSIONS X)"
    by (simp add: toggleTypeCategory_def Let_def)
  then show ?thesis
    using assms typeButtonClicks_nonempty toggle_last_category_resets
      settingsTypeClicks_nonempty settings_last_category_resets
    by blast
qed


theorem active_file_types_never_empty_witness:
  "SUPPORTED_IMAGE_EXTENSIONS exampleExtensions \<noteq> []
   \<and> activeFileTypes
        (foldl (\<lambda>m c. typeButtonClick exampleExtensions c m) exampleModal
           [Videos, AllTypes, Images]) \<noteq> {}
   \<and> activeFileTypes (toggleTypeCategory exampleExtensions Videos exampleModal)
       = {js ''png'', js ''jpg''}
   \<and> activeFileTypes (toggleTypeCategory exampleExtensions AllTypes exampleModal)
       = {js ''png'', js ''jpg''}
   \<and> searchFileTypes
        (foldl (\<lambda>st b. settingsTypeClick exampleExtensions b st) exampleSettings
           [VidBtn, DocBtn, ImgBtn]) \<noteq> []
   \<and> searchFileTypes (settingsTypeClick exampleExtensions VidBtn exampleSettings)
       = [js ''png'', js ''jpg'']"
  using active_file_types_never_empty
    [of exampleExtensions exampleModal "[Videos, AllTypes, Images]" Videos
        exampleSettings "[VidBtn, DocBtn, ImgBtn]" VidBtn]
  by (simp add: exampleExtensions_def exampleModal_def exampleSettings_def
      isTypeCategoryActive_def hasAll_def js_def)


section \<open>Loading the items\<close>

lemma resume_finished_not_loading:
  "resume a r m = Some (m', None) \<Longrightarrow> \<not> isLoading m'"
  by (cases "(a, r, m)" rule: resume.cases) (auto simp: finallyBlock_def split: if_splits)

lemma resume_continues_isLoading:
  "resume a r m = Some (m', Some a') \<Longrightarrow> isLoading m' = isLoading m"
  by (cases "(a, r, m)" rule: resume.cases)
     (auto simp: call_def showLibraryName_def split: if_splits option.splits)

lemma fire_oneLoad:
  assumes "oneLoad s" and "fire e s = Some s'"
  shows "oneLoad s'"
proof (cases e)
  case Invoke
  with assms show ?thesis
    by (auto simp: oneLoad_def enter_def call_def split: if_splits)
next
  case (Settle i r)
  with assms have i: "i < length (suspended s)"
    by (simp split: if_splits)
  with assms(1) have one: "suspended s = [suspended s ! i]" "i = 0" "isLoading (modal s)"
    by (cases "suspended s"; simp add: oneLoad_def)+
  from assms(2) Settle i obtain m a where
    res: "resume (suspended s ! i) r (modal s) = Some (m, a)"
    by (auto split: option.splits)
  show ?thesis
  proof (cases a)
    case None
    with res assms(2) Settle i one have "s' = s\<lparr>modal := m, suspended := []\<rparr>"
      by (cases "suspended s") auto
    with res None show ?thesis
      by (simp add: oneLoad_def resume_finished_not_loading)
  next
    case (Some a')
    with res assms(2) Settle i have "s' = s\<lparr>modal := m, suspended := (suspended s)[i := a']\<rparr>"
      by auto
    with res Some one assms(1) show ?thesis
      by (simp add: oneLoad_def resume_continues_isLoading)
  qed
qed

lemma fireAll_oneLoad:
  "oneLoad s \<Longrightarrow> fireAll es s = Some s' \<Longrightarrow> oneLoad s'"
  by (induction es arbitrary: s) (auto split: option.splits dest: fire_oneLoad)

lemma loadItems_allItems:
  "listItems api = Rejected \<Longrightarrow> allItems (loadItems api m) = allItems m"
  by (auto simp: loadItems_def tryBlock_def Let_def finallyBlock_def catchBlock_def call_def
      notConnected_def showLibraryName_def split: settled.splits option.splits)

lemma loadItems_wholeRun:
  "\<not> isLoading m \<Longrightarrow>
   fireAll (wholeRun api) \<lparr>modal = m, suspended = []\<rparr>
     = Some \<lparr>modal = loadItems api m, suspended = []\<rparr>"
  by (auto simp: wholeRun_def loadItems_def tryBlock_def Let_def enter_def
      split: settled.splits)

text \<open>
  C6. When the item-listing call throws, \<open>allItems\<close> is what it was before the call
  of \<open>loadItems\<close>. In a call that reaches the listing (the modal is not loading, Eagle
  is connected, the library name was returned), the three calls are made once each and
  in order (no retry), the exception is caught (the error is logged and the run ends
  normally), the failure notice is shown, \<open>isLoading\<close> is cleared, and the modal is
  neither closed nor refreshed.
\<close>

theorem loadItems_listing_throws:
  assumes "listItems api = Rejected"
  shows "allItems (loadItems api m) = allItems m
    \<and> (\<not> isLoading m \<and> isConnected api = Fulfilled True
        \<and> getLibraryName api = Fulfilled libraryName \<longrightarrow>
         requests (loadItems api m) = requests m @ [IsConnected, GetLibraryName, ListItems]
       \<and> notices (loadItems api m) = notices m @ [LoadFailed]
       \<and> consoleErrors (loadItems api m) = consoleErrors m + 1
       \<and> \<not> isLoading (loadItems api m)
       \<and> closed (loadItems api m) = closed m
       \<and> inputEvents (loadItems api m) = inputEvents m
       \<and> activeScopes (loadItems api m) = activeScopes m
       \<and> activeFileTypes (loadItems api m) = activeFileTypes m)"
proof -
  have "allItems (loadItems api m) = allItems m"
    using assms by (rule loadItems_allItems)
  moreover have "\<not> isLoading m \<and> isConnected api = Fulfilled True
        \<and> getLibraryName api = Fulfilled libraryName \<longrightarrow>
         requests (loadItems api m) = requests m @ [IsConnected, GetLibraryName, ListItems]
       \<and> notices (loadItems api m) = notices m @ [LoadFailed]
       \<and> consoleErrors (loadItems api m) = consoleErrors m + 1
       \<and> \<not> isLoading (loadItems api m)
       \<and> closed (loadItems api m) = closed m
       \<and> inputEvents (loadItems api m) = inputEvents m
       \<and> activeScopes (loadItems api m) = activeScopes m
       \<and> activeFileTypes (loadItems api m) = activeFileTypes m"
    using assms
    by (auto simp: loadItems_def tryBlock_def Let_def finallyBlock_def catchBlock_def call_def
        showLibraryName_def split: option.splits)
  ultimately show ?thesis
    by blast
qed

theorem loadItems_listing_throws_witness:
  "listItems exampleApi = Rejected
   \<and> \<not> isLoading exampleModal
   \<and> isConnected exampleApi = Fulfilled True
   \<and> getLibraryName exampleApi = Fulfilled (Some (js ''Lib''))
   \<and> allItems (loadItems exampleApi exampleModal) = allItems exampleModal
   \<and> requests (loadItems exampleApi exampleModal) = [IsConnected, GetLibraryName, ListItems]
   \<and> notices (loadItems exampleApi exampleModal) = [LoadFailed]
   \<and> \<not> isLoading (loadItems exampleApi exampleModal)"
  using loadItems_listing_throws [of exampleApi exampleModal "Some (js ''Lib'')"]
  by (simp add: exampleApi_def exampleModal_def)

text \<open>
  C7. At most one load is in flight. From a modal that is not loading, after any events
  (invocations of \<open>loadItems\<close> and settlings of awaited calls, in any order) at most
  one invocation is suspended, and \<open>isLoading\<close> is set exactly while one is. An
  invocation while \<open>isLoading\<close> is set returns at once: no call is made and no state
  changes. An invocation that finishes, by completing, by returning early or by a throw,
  leaves \<open>isLoading\<close> cleared.
\<close>

theorem at_most_one_load_in_flight:
  "(\<not> isLoading m \<and> fireAll es \<lparr>modal = m, suspended = []\<rparr> = Some s \<longrightarrow> oneLoad s)
   \<and> (isLoading m \<longrightarrow> enter m = (m, None))
   \<and> (isLoading (modal s) \<longrightarrow> fire Invoke s = Some s)
   \<and> (resume a r m = Some (m', None) \<longrightarrow> \<not> isLoading m')
   \<and> (\<not> isLoading m \<longrightarrow> \<not> isLoading (loadItems api m))"
proof -
  have "oneLoad \<lparr>modal = m, suspended = []\<rparr>" if "\<not> isLoading m"
    using that by (simp add: oneLoad_def)
  then have "\<not> isLoading m \<and> fireAll es \<lparr>modal = m, suspended = []\<rparr> = Some s \<longrightarrow> oneLoad s"
    using fireAll_oneLoad by blast
  moreover have "isLoading m \<longrightarrow> enter m = (m, None)"
    by (simp add: enter_def)
  moreover have "isLoading (modal s) \<longrightarrow> fire Invoke s = Some s"
    by (simp add: enter_def)
  moreover have "resume a r m = Some (m', None) \<longrightarrow> \<not> isLoading m'"
    using resume_finished_not_loading by blast
  moreover have "\<not> isLoading m \<longrightarrow> \<not> isLoading (loadItems api m)"
    by (simp add: loadItems_def finallyBlock_def)
  ultimately show ?thesis
    by blast
qed

theorem at_most_one_load_in_flight_witness:
  "\<not> isLoading exampleModal
   \<and> fireAll [Invoke, Invoke, Settle 0 (ConnectedIs True), Invoke]
        \<lparr>modal = exampleModal, suspended = []\<rparr> = Some exampleSuspended
   \<and> oneLoad exampleSuspended
   \<and> isLoading (modal exampleSuspended)
   \<and> enter (modal exampleSuspended) = (modal exampleSuspended, None)
   \<and> fire Invoke exampleSuspended = Some exampleSuspended
   \<and> resume AwaitGetLibraryName Throws (modal exampleSuspended)
       = Some (exampleModal\<lparr>requests := [IsConnected, GetLibraryName], consoleErrors := 1,
                 notices := [LoadFailed]\<rparr>, None)
   \<and> \<not> isLoading (exampleModal\<lparr>requests := [IsConnected, GetLibraryName], consoleErrors := 1,
                 notices := [LoadFailed]\<rparr>)
   \<and> \<not> isLoading (loadItems exampleApi exampleModal)"
  using at_most_one_load_in_flight
    [of exampleModal "[Invoke, Invoke, Settle 0 (ConnectedIs True), Invoke]" exampleSuspended
        AwaitGetLibraryName Throws
        "exampleModal\<lparr>requests := [IsConnected, GetLibraryName], consoleErrors := 1,
                 notices := [LoadFailed]\<rparr>" exampleApi]
    at_most_one_load_in_flight
    [of "modal exampleSuspended" "[]" exampleSuspended
        AwaitGetLibraryName Throws
        "exampleModal\<lparr>requests := [IsConnected, GetLibraryName], consoleErrors := 1,
                 notices := [LoadFailed]\<rparr>" exampleApi]
  by (simp add: exampleModal_def exampleSuspended_def enter_def call_def finallyBlock_def
      catchBlock_def)


section \<open>The enabled flags of the cloud providers\<close>

text \<open>
  For R2, ImgHippo and the custom server, every handler of a required credential
  recomputes the flag, and no other handler touches the flag or the credentials: the
  flag says that the credentials are all non-empty after any edit of one of them, and
  stays so whatever is edited next.
\<close>

lemma r2_enabled_tracks_credentials:
  "f \<in> {R2WorkerUrl, R2ApiKey} \<or> r2_enabled (r2 c) = r2Configured c \<Longrightarrow>
   r2_enabled (r2 (onChange f v c)) = r2Configured (onChange f v c)"
  by (cases f) (auto simp: r2Configured_def Let_def)

lemma imghippo_enabled_tracks_credentials:
  "f = ImgHippoApiKey \<or> imghippo_enabled (imghippo c) = (imghippo_apiKey (imghippo c) \<noteq> []) \<Longrightarrow>
   imghippo_enabled (imghippo (onChange f v c))
     = (imghippo_apiKey (imghippo (onChange f v c)) \<noteq> [])"
  by (cases f) (auto simp: Let_def)

lemma custom_enabled_tracks_credentials:
  "f = CustomUploadUrl \<or> custom_enabled (custom c) = (custom_uploadUrl (custom c) \<noteq> []) \<Longrightarrow>
   custom_enabled (custom (onChange f v c)) = (custom_uploadUrl (custom (onChange f v c)) \<noteq> [])"
  by (cases f) (auto simp: Let_def)

text \<open>
  C2. For S3 and WebDAV only the handler of the last credential (the secret access key,
  the password) recomputes the flag. Starting from the empty configuration: after the
  three S3 credentials are entered and the endpoint is cleared again, S3 is still
  enabled; after the secret access key is entered first and the other two after it, S3
  is not enabled although all three are set. The same happens for WebDAV.
\<close>

theorem enabled_flag_not_recomputed:
  "s3_enabled (s3 (edits [(S3Endpoint, js ''e''), (S3AccessKeyId, js ''a''),
                          (S3SecretAccessKey, js ''s''), (S3Endpoint, [])] emptyProviders))
   \<and> \<not> s3Configured (edits [(S3Endpoint, js ''e''), (S3AccessKeyId, js ''a''),
                          (S3SecretAccessKey, js ''s''), (S3Endpoint, [])] emptyProviders)
   \<and> \<not> s3_enabled (s3 (edits [(S3SecretAccessKey, js ''s''), (S3Endpoint, js ''e''),
                          (S3AccessKeyId, js ''a'')] emptyProviders))
   \<and> s3Configured (edits [(S3SecretAccessKey, js ''s''), (S3Endpoint, js ''e''),
                          (S3AccessKeyId, js ''a'')] emptyProviders)
   \<and> webdav_enabled (webdav (edits [(WebDAVServerUrl, js ''u''), (WebDAVUsername, js ''n''),
                          (WebDAVPassword, js ''p''), (WebDAVUsername, [])] emptyProviders))
   \<and> \<not> webdavConfigured (edits [(WebDAVServerUrl, js ''u''), (WebDAVUsername, js ''n''),
                          (WebDAVPassword, js ''p''), (WebDAVUsername, [])] emptyProviders)
   \<and> \<not> webdav_enabled (webdav (edits [(WebDAVPassword, js ''p''), (WebDAVServerUrl, js ''u''),
                          (WebDAVUsername, js ''n'')] emptyProviders))
   \<and> webdavConfigured (edits [(WebDAVPassword, js ''p''), (WebDAVServerUrl, js ''u''),
                          (WebDAVUsername, js ''n'')] emptyProviders)"
  by (simp add: js_def trim_def isWhiteSpace_def s3Configured_def webdavConfigured_def
      emptyProviders_def)


section \<open>The paste choice\<close>

lemma toggled_snoc:
  "toggled (es @ [e]) = switch (toggled es) e"
  by (simp add: toggled_def)

lemma count_list_snoc: "count_list (xs @ [x]) y = count_list xs y + (if x = y then 1 else 0)"
  by (induction xs) auto

lemma handleAll_snoc: "handleAll (es @ [e]) m = handle e (handleAll es m)"
  by (simp add: handleAll_def)

lemma whileOpen_handleAll:
  "list_all (\<lambda>e. \<not> closes e) es \<Longrightarrow> whileOpen es (handleAll es newModal)"
proof (induction es rule: rev_induct)
  case Nil
  then show ?case
    by (simp add: whileOpen_def handleAll_def newModal_def toggled_def)
next
  case (snoc e es)
  then have IH: "whileOpen es (handleAll es newModal)"
    by simp
  from snoc.prems have "\<not> closes e"
    by simp
  then show ?case
    using IH
    by (cases e)
       (auto simp: handleAll_snoc whileOpen_def toggled_snoc count_list_snoc getResponse_def)
qed

text \<open>
  C10. The promise of \<open>getResponse\<close> is resolved when the modal closes. On a new
  modal, after any calls of \<open>getResponse\<close> (at least one) and any switching of the
  toggle, the event that closes the modal resolves the promise returned by the latest
  call: with the button's choice when a button was clicked, with \<open>cancel\<close> when the
  modal was dismissed, and with \<open>rememberChoice\<close> as the toggle stands, which is off
  unless it was switched on.
\<close>

theorem getResponse_resolves_on_close:
  assumes "list_all (\<lambda>e. \<not> closes e) es" and "GetResponse \<in> set es" and "closes e"
  shows "promises (handleAll (es @ [e]) newModal) ! (count_list es GetResponse - 1)
         = Some \<lparr>choice = closingChoice e, rememberChoice = toggled es\<rparr>"
proof -
  let ?m = "handleAll es newModal"
  from assms(1) have inv: "whileOpen es ?m"
    by (rule whileOpen_handleAll)
  from assms(2) have pos: "count_list es GetResponse > 0"
    using count_list_0_iff by fastforce
  with inv have ne: "promises ?m \<noteq> []" and len: "length (promises ?m) = count_list es GetResponse"
    by (auto simp: whileOpen_def)
  from inv ne have rp: "resolvePromise ?m = Some (length (promises ?m) - 1)"
    by (simp add: whileOpen_def)
  from ne have lt: "length (promises ?m) - 1 < length (promises ?m)"
    by (cases "promises ?m") simp_all
  from inv have "\<forall>n < length (promises ?m). promises ?m ! n = None"
    by (simp add: whileOpen_def list_all_length)
  with lt have pend: "promises ?m ! (length (promises ?m) - 1) = None"
    by blast
  from inv have ch: "p_choice (response ?m) = None"
    and rc: "p_rememberChoice (response ?m) = Some (toggled es)"
    by (simp_all add: whileOpen_def)
  show ?thesis
    using assms(3) rp pend ch rc lt len
    by (cases e) (simp_all add: handleAll_snoc onClose_def resolve_def)
qed

theorem getResponse_resolves_on_close_witness:
  "list_all (\<lambda>e. \<not> closes e) [GetResponse, Toggle True]
   \<and> GetResponse \<in> set [GetResponse, Toggle True]
   \<and> closes Dismiss
   \<and> promises (handleAll ([GetResponse, Toggle True] @ [Dismiss]) newModal) ! 0
       = Some \<lparr>choice = Cancel, rememberChoice = True\<rparr>
   \<and> promises (handleAll ([GetResponse] @ [Dismiss]) newModal) ! 0
       = Some \<lparr>choice = Cancel, rememberChoice = False\<rparr>"
  using getResponse_resolves_on_close [of "[GetResponse, Toggle True]" Dismiss]
    getResponse_resolves_on_close [of "[GetResponse]" Dismiss]
  by (simp add: toggled_def)


section \<open>Tag normalisation\<close>

lemma replace_no_white_space:
  "list_all (\<lambda>c. \<not> isWhiteSpace c) s \<Longrightarrow> replaceWhiteSpaceRuns s = s"
  by (induction s) simp_all

lemma replace_leading_run:
  assumes "w \<noteq> []" and "list_all isWhiteSpace w" and "v = [] \<or> \<not> isWhiteSpace (hd v)"
  shows "replaceWhiteSpaceRuns (w @ v) = 0x2D # replaceWhiteSpaceRuns v"
proof -
  from assms(1) obtain c w' where w: "w = c # w'"
    by (cases w) auto
  with assms(2) have c: "isWhiteSpace c" and w': "\<forall>x \<in> set w'. isWhiteSpace x"
    by (simp_all add: list_all_iff)
  from assms(3) have "dropWhile isWhiteSpace v = v"
    by (cases v) auto
  with w' have "dropWhile isWhiteSpace (w' @ v) = v"
    by (simp add: dropWhile_append2)
  with c w show ?thesis
    by simp
qed

lemma replace_inner_run:
  assumes "w \<noteq> []" and "list_all isWhiteSpace w" and "v = [] \<or> \<not> isWhiteSpace (hd v)"
  shows "u = [] \<or> \<not> isWhiteSpace (last u) \<Longrightarrow>
         replaceWhiteSpaceRuns (u @ w @ v) = replaceWhiteSpaceRuns u @ 0x2D # replaceWhiteSpaceRuns v"
proof (induction u rule: replaceWhiteSpaceRuns.induct)
  case 1
  from assms show ?case
    by (simp add: replace_leading_run)
next
  case (2 c cs)
  show ?case
  proof (cases "isWhiteSpace c")
    case False
    with "2.prems" have "cs = [] \<or> \<not> isWhiteSpace (last cs)"
      by (auto split: if_splits)
    with False "2.IH"(2) show ?thesis
      by simp
  next
    case True
    with "2.prems" have ne: "cs \<noteq> []" and lst: "\<not> isWhiteSpace (last cs)"
      by (auto split: if_splits)
    then have ex: "\<exists>x \<in> set cs. \<not> isWhiteSpace x"
      using last_in_set by blast
    then have dw: "dropWhile isWhiteSpace (cs @ w @ v) = dropWhile isWhiteSpace cs @ w @ v"
      by (metis dropWhile_append1)
    from ex have dne: "dropWhile isWhiteSpace cs \<noteq> []"
      by (metis dropWhile_eq_Nil_conv)
    have "last (dropWhile isWhiteSpace cs) = last cs"
      using dne by (metis last_appendR takeWhile_dropWhile_id)
    with lst dne True "2.IH"(1)
    have "replaceWhiteSpaceRuns (dropWhile isWhiteSpace cs @ w @ v)
        = replaceWhiteSpaceRuns (dropWhile isWhiteSpace cs) @ 0x2D # replaceWhiteSpaceRuns v"
      by simp
    with True dw show ?thesis
      by simp
  qed
qed

text \<open>
  C4. \<open>normalizeTag\<close> replaces the white-space runs of the tag, lowercases the result
  exactly when \<open>tagNormalization\<close> is \<open>lowercase\<close>, and puts \<open>tagPrefix\<close> and a slash
  in front exactly when \<open>tagPrefix\<close> is not empty. The replacement leaves a string
  without white space as it is, and turns each maximal run of white space (a non-empty
  run \<open>w\<close> with no white space next to it on either side) into one hyphen.
\<close>

theorem normalizeTag_spec:
  "normalizeTag lc st tag =
     (if tagPrefix st \<noteq> [] then tagPrefix st @ js ''/'' else [])
     @ (if tagNormalization st = js ''lowercase'' then lc (replaceWhiteSpaceRuns tag)
        else replaceWhiteSpaceRuns tag)
   \<and> (list_all (\<lambda>c. \<not> isWhiteSpace c) s \<longrightarrow> replaceWhiteSpaceRuns s = s)
   \<and> (w \<noteq> [] \<and> list_all isWhiteSpace w
       \<and> (u = [] \<or> \<not> isWhiteSpace (last u)) \<and> (v = [] \<or> \<not> isWhiteSpace (hd v)) \<longrightarrow>
      replaceWhiteSpaceRuns (u @ w @ v)
        = replaceWhiteSpaceRuns u @ js ''-'' @ replaceWhiteSpaceRuns v)"
proof -
  have "js ''-'' = [0x2D]"
    by (simp add: js_def)
  then show ?thesis
    using replace_no_white_space [of s] replace_inner_run [of w v u]
    by (simp add: normalizeTag_def Let_def)
qed

theorem normalizeTag_spec_witness:
  "normalizeTag asciiLower exampleSettings (js ''My  Tag x'') = js ''eagle/my-tag-x''
   \<and> normalizeTag asciiLower (exampleSettings\<lparr>tagNormalization := js ''none'', tagPrefix := []\<rparr>)
        (js ''My  Tag x'') = js ''My-Tag-x''
   \<and> list_all (\<lambda>c. \<not> isWhiteSpace c) (js ''Tag'')
   \<and> replaceWhiteSpaceRuns (js ''Tag'') = js ''Tag''
   \<and> list_all isWhiteSpace (js ''  '')
   \<and> replaceWhiteSpaceRuns (js ''My'' @ js ''  '' @ js ''Tag x'')
       = replaceWhiteSpaceRuns (js ''My'') @ js ''-'' @ replaceWhiteSpaceRuns (js ''Tag x'')"
  using normalizeTag_spec [of asciiLower exampleSettings "js ''My  Tag x''" "js ''Tag''"
      "js ''  ''" "js ''My''" "js ''Tag x''"]
    normalizeTag_spec [of asciiLower
      "exampleSettings\<lparr>tagNormalization := js ''none'', tagPrefix := []\<rparr>" "js ''My  Tag x''"
      "js ''Tag''" "js ''  ''" "js ''My''" "js ''Tag x''"]
  by (simp add: exampleSettings_def js_def isWhiteSpace_def asciiLower_def)


section \<open>File sizes\<close>

lemma decimal_ne: "decimal n \<noteq> []"
  by (subst decimal.simps) simp

lemma toFixed1_tenths:
  "toFixed1 x = oneDecimal (nat \<lfloor>x * 10 + 1 / 2\<rfloor>)"
proof -
  define n where "n = nat \<lfloor>x * 10 + 1 / 2\<rfloor>"
  show ?thesis
  proof (cases "n < 10")
    case True
    then have d: "decimal n = [0x30 + of_nat n]" "decimal (n div 10) = [0x30]" "n mod 10 = n"
      by (simp_all add: decimal.simps)
    have z: "js ''0'' = [0x30]"
      by (simp add: js_def)
    from True d z show ?thesis
      unfolding toFixed1_def oneDecimal_def n_def [symmetric] Let_def
      by (cases "n = 0") simp_all
  next
    case False
    then have d: "decimal n = decimal (n div 10) @ [0x30 + of_nat (n mod 10)]"
      by (subst decimal.simps) simp
    have l: "decimal (n mod 10) = [0x30 + of_nat (n mod 10)]"
      by (subst decimal.simps) simp
    have ne: "decimal (n div 10) \<noteq> []"
      by (rule decimal_ne)
    then have len: "\<not> length (decimal n) \<le> 1"
      by (cases "decimal (n div 10)") (simp_all add: d)
    from False have n0: "n \<noteq> 0"
      by simp
    show ?thesis
      unfolding toFixed1_def oneDecimal_def n_def [symmetric] Let_def
      using n0 len by (simp add: d l)
  qed
qed

lemma floor_tenths:
  assumes "0 < unit" and "even unit"
  shows "nat \<lfloor>(of_nat bytes / of_nat unit :: rat) * 10 + 1 / 2\<rfloor> = roundedTenths bytes unit"
proof -
  from assms obtain h where h: "unit = 2 * h" "0 < h"
    by (auto elim: evenE)
  have "(of_nat bytes / of_nat unit :: rat) * 10 + 1 / 2 = of_nat (10 * bytes + h) / of_nat unit"
    using h by (simp add: field_simps)
  also have "\<lfloor>\<dots>\<rfloor> = int ((10 * bytes + h) div unit)"
    by (rule floor_divide_of_nat_eq)
  finally show ?thesis
    using h by (simp add: roundedTenths_def)
qed

lemma roundedTenths_nearest:
  assumes "0 < unit" and "even unit"
  shows "(of_nat bytes / of_nat unit :: rat) - 1 / 20 < of_nat (roundedTenths bytes unit) / 10
       \<and> of_nat (roundedTenths bytes unit) / 10 \<le> (of_nat bytes / of_nat unit :: rat) + 1 / 20"
proof -
  define t where "t = roundedTenths bytes unit"
  from assms obtain h where h: "unit = 2 * h" "0 < h"
    by (auto elim: evenE)
  have t: "t = (10 * bytes + h) div unit"
    using h by (simp add: t_def roundedTenths_def)
  have lo: "t * unit \<le> 10 * bytes + h"
    unfolding t by simp
  have hi: "10 * bytes + h < (t + 1) * unit"
    unfolding t using assms(1) by (metis Suc_eq_plus1 dividend_less_div_times mult.commute mult_Suc)
  have u: "(0::rat) < of_nat unit"
    using assms(1) by simp
  have "(of_nat (t * unit) :: rat) \<le> of_nat (10 * bytes + h)"
    using lo of_nat_le_iff by blast
  then have 1: "of_nat t / 10 \<le> (of_nat bytes / of_nat unit :: rat) + 1 / 20"
    using u h by (simp add: field_simps)
  have "(of_nat (10 * bytes + h) :: rat) < of_nat ((t + 1) * unit)"
    using hi of_nat_less_iff by blast
  then have 2: "(of_nat bytes / of_nat unit :: rat) - 1 / 20 < of_nat t / 10"
    using u h by (simp add: field_simps)
  from 1 2 show ?thesis
    unfolding t_def by simp
qed

text \<open>
  C3. For a byte count below \<open>2\<^sup>5\<^sup>3\<close> (an integer that a Number holds exactly; the
  divisions by 1024 and 1048576 are then exact), \<open>formatFileSize\<close> returns the decimal
  digits of the count and \<open>B\<close> below 1024; the count divided by 1024, rounded to one
  decimal, and \<open>KB\<close> from 1024 and below 1048576; the count divided by 1048576, rounded
  to one decimal, and \<open>MB\<close> from there on. Rounded to one decimal is the nearest
  multiple of one tenth, the upper one at a tie.
\<close>

theorem formatFileSize_spec:
  assumes "bytes < 2 ^ 53"
  shows
  "(bytes < 1024 \<longrightarrow> formatFileSize bytes = decimal bytes @ js '' B'')
   \<and> (1024 \<le> bytes \<and> bytes < 1048576 \<longrightarrow>
        formatFileSize bytes = oneDecimal (roundedTenths bytes 1024) @ js '' KB'')
   \<and> (1048576 \<le> bytes \<longrightarrow>
        formatFileSize bytes = oneDecimal (roundedTenths bytes 1048576) @ js '' MB'')
   \<and> (\<forall>unit \<in> {1024, 1048576}.
        (of_nat bytes / of_nat unit :: rat) - 1 / 20 < of_nat (roundedTenths bytes unit) / 10
        \<and> of_nat (roundedTenths bytes unit) / 10 \<le> (of_nat bytes / of_nat unit :: rat) + 1 / 20)"
proof -
  have kb: "toFixed1 (of_nat bytes / 1024) = oneDecimal (roundedTenths bytes 1024)"
    using floor_tenths [of 1024 bytes] by (simp add: toFixed1_tenths)
  have mb: "toFixed1 (of_nat bytes / (1024 * 1024)) = oneDecimal (roundedTenths bytes 1048576)"
    using floor_tenths [of 1048576 bytes] by (simp add: toFixed1_tenths)
  have near: "\<forall>unit \<in> {1024, 1048576}.
        (of_nat bytes / of_nat unit :: rat) - 1 / 20 < of_nat (roundedTenths bytes unit) / 10
        \<and> of_nat (roundedTenths bytes unit) / 10 \<le> (of_nat bytes / of_nat unit :: rat) + 1 / 20"
    using roundedTenths_nearest [of 1024 bytes] roundedTenths_nearest [of 1048576 bytes]
    by simp
  show ?thesis
    using kb mb near by (simp add: formatFileSize_def)
qed

theorem formatFileSize_spec_witness:
  "(1536::nat) < 2 ^ 53
   \<and> formatFileSize 1023 = js ''1023 B''
   \<and> formatFileSize 1536 = js ''1.5 KB''
   \<and> formatFileSize 1280 = js ''1.3 KB''
   \<and> formatFileSize 1048575 = js ''1024.0 KB''
   \<and> formatFileSize 5000000 = js ''4.8 MB''"
  using formatFileSize_spec [of 1023] formatFileSize_spec [of 1536] formatFileSize_spec [of 1280]
    formatFileSize_spec [of 1048575] formatFileSize_spec [of 5000000]
  by (simp add: roundedTenths_def oneDecimal_def decimal.simps js_def)

section \<open>File URLs\<close>

lemma unat_code_unit: "n < 65536 \<Longrightarrow> unat (of_nat n :: code_unit) = n"
  by (simp add: unat_of_nat)

lemma unat_lt: "unat (c :: code_unit) < 65536"
  using unsigned_less [of c, where 'a = nat] by simp

lemma hexValue_hexDigit: "d < 16 \<Longrightarrow> hexValue (hexDigit d) = Some d"
  by (auto simp: hexValue_def hexDigit_def unat_code_unit Let_def)

lemma parseHexOctet_percentEncode:
  "b < 256 \<Longrightarrow> parseHexOctet (hexDigit (b div 16)) (hexDigit (b mod 16)) = Some b"
  by (simp add: parseHexOctet_def hexValue_hexDigit less_mult_imp_div_less)

lemma continuationOctets_percentEncode:
  "\<forall>b \<in> set bs. b < 256 \<Longrightarrow>
   continuationOctets (length bs) (concat (map percentEncode bs) @ t) = Some (bs, t)"
  by (induction bs) (simp_all add: percentEncode_def parseHexOctet_percentEncode)

lemma utf8_two:
  assumes "0x80 \<le> cp" and "cp < 0x800"
  shows "leadingOnes (0xC0 + cp div 0x40) = 2
    \<and> utf8Decode [0xC0 + cp div 0x40, 0x80 + cp mod 0x40] = Some cp"
proof -
  have lo: "2 \<le> cp div 0x40"
    using assms(1) by (simp add: le_div_geq) 
  have hi: "cp div 0x40 < 32"
    using assms(2) by (simp add: less_mult_imp_div_less)
  have m: "cp mod 0x40 < 64"
    by simp
  have e: "cp div 0x40 * 0x40 + cp mod 0x40 = cp"
    by simp
  from lo hi m e show ?thesis
    by (simp add: leadingOnes_def isContinuation_def)
qed

lemma utf8_three:
  assumes "0x800 \<le> cp" and "cp < 0x10000" and "\<not> (0xD800 \<le> cp \<and> cp \<le> 0xDFFF)"
  shows "leadingOnes (0xE0 + cp div 0x1000) = 3
    \<and> utf8Decode [0xE0 + cp div 0x1000, 0x80 + cp div 0x40 mod 0x40, 0x80 + cp mod 0x40]
         = Some cp"
proof -
  have hi: "cp div 0x1000 < 16"
    using assms(2) by (simp add: less_mult_imp_div_less)
  have "cp div 0x40 div 0x40 = cp div 0x1000"
    by (simp add: div_mult2_eq [symmetric])
  then have "cp div 0x1000 * 0x40 + cp div 0x40 mod 0x40 = cp div 0x40"
    by (metis div_mult_mod_eq)
  then have "(cp div 0x1000 * 0x40 + cp div 0x40 mod 0x40) * 0x40 + cp mod 0x40 = cp"
    by simp
  then have e: "cp div 0x1000 * 0x1000 + cp div 0x40 mod 0x40 * 0x40 + cp mod 0x40 = cp"
    by (simp add: algebra_simps)
  from hi e assms show ?thesis
    by (simp add: leadingOnes_def isContinuation_def Let_def)
qed

lemma utf8_four:
  assumes "0x10000 \<le> cp" and "cp \<le> 0x10FFFF"
  shows "leadingOnes (0xF0 + cp div 0x40000) = 4
    \<and> utf8Decode [0xF0 + cp div 0x40000, 0x80 + cp div 0x1000 mod 0x40,
                     0x80 + cp div 0x40 mod 0x40, 0x80 + cp mod 0x40] = Some cp"
proof -
  have hi: "cp div 0x40000 < 8"
    using assms(2) by (simp add: less_mult_imp_div_less)
  have "cp div 0x40 div 0x40 = cp div 0x1000" "cp div 0x1000 div 0x40 = cp div 0x40000"
    by (simp_all add: div_mult2_eq [symmetric])
  then have a: "cp div 0x1000 * 0x40 + cp div 0x40 mod 0x40 = cp div 0x40"
    and b: "cp div 0x40000 * 0x40 + cp div 0x1000 mod 0x40 = cp div 0x1000"
    by (metis div_mult_mod_eq)+
  have "cp div 0x40 * 0x40 + cp mod 0x40 = cp"
    by simp
  then have "((cp div 0x40000 * 0x40 + cp div 0x1000 mod 0x40) * 0x40 + cp div 0x40 mod 0x40) * 0x40
             + cp mod 0x40 = cp"
    by (simp only: a b)
  then have e: "cp div 0x40000 * 0x40000 + cp div 0x1000 mod 0x40 * 0x1000
        + cp div 0x40 mod 0x40 * 0x40 + cp mod 0x40 = cp"
    by (simp add: algebra_simps)
  from hi e assms show ?thesis
    by (simp add: leadingOnes_def isContinuation_def Let_def)
qed

lemma utf8Encode_octets: "cp \<le> 0x10FFFF \<Longrightarrow> \<forall>b \<in> set (utf8Encode cp). b < 256"
proof -
  assume a: "cp \<le> 0x10FFFF"
  have 1: "cp div 0x40000 < 8"
    using a by (simp add: less_mult_imp_div_less)
  have 2: "cp < 0x10000 \<Longrightarrow> cp div 0x1000 < 16"
    by (simp add: less_mult_imp_div_less)
  have 3: "cp < 0x800 \<Longrightarrow> cp div 0x40 < 32"
    by (simp add: less_mult_imp_div_less)
  have 4: "x mod 0x40 < 128" for x :: nat
    by (rule order_less_trans [of _ 64]) simp_all
  show ?thesis
    using 1 2 3 by (auto simp: utf8Encode_def 4)
qed

lemma decode_percent_octet:
  assumes "b < 256"
  shows "decodeURIComponent (percentEncode b @ t) =
     (if leadingOnes b = 0 then emit [of_nat b] (decodeURIComponent t)
      else if leadingOnes b = 1 \<or> leadingOnes b > 4 then Inl URIError
      else
        (case continuationOctets (leadingOnes b - 1) t of
           None \<Rightarrow> Inl URIError
         | Some (bs, rest') \<Rightarrow>
             (case utf8Decode (b # bs) of
                None \<Rightarrow> Inl URIError
              | Some cp \<Rightarrow> emit (utf16Encode cp) (decodeURIComponent rest'))))"
  using assms by (simp add: percentEncode_def parseHexOctet_percentEncode)

lemma decode_encoded_code_point:
  assumes "cp \<le> 0x10FFFF" and "\<not> (0xD800 \<le> cp \<and> cp \<le> 0xDFFF)"
  shows "decodeURIComponent (concat (map percentEncode (utf8Encode cp)) @ t)
         = emit (utf16Encode cp) (decodeURIComponent t)"
proof -
  have oct: "\<forall>b \<in> set (utf8Encode cp). b < 256"
    using assms(1) by (rule utf8Encode_octets)
  consider (one) "cp < 0x80" | (two) "0x80 \<le> cp" "cp < 0x800"
    | (three) "0x800 \<le> cp" "cp < 0x10000" | (four) "0x10000 \<le> cp"
    by linarith
  then show ?thesis
  proof cases
    case one
    then have "utf8Encode cp = [cp]" "leadingOnes cp = 0" "utf16Encode cp = [of_nat cp]"
      by (simp_all add: utf8Encode_def leadingOnes_def utf16Encode_def)
    with one show ?thesis
      by (simp add: decode_percent_octet)
  next
    case two
    let ?b0 = "0xC0 + cp div 0x40" and ?bs = "[0x80 + cp mod 0x40]"
    from two have enc: "utf8Encode cp = ?b0 # ?bs"
      by (simp add: utf8Encode_def)
    with oct have b0: "?b0 < 256" and bs: "\<forall>b \<in> set ?bs. b < 256"
      by simp_all
    have "continuationOctets (length ?bs) (concat (map percentEncode ?bs) @ t) = Some (?bs, t)"
      using bs by (rule continuationOctets_percentEncode)
    then have co: "continuationOctets (Suc 0) (percentEncode (0x80 + cp mod 0x40) @ t) = Some (?bs, t)"
      by simp
    from utf8_two [OF two] co show ?thesis
      unfolding enc by (simp add: decode_percent_octet [OF b0])
  next
    case three
    let ?b0 = "0xE0 + cp div 0x1000"
    let ?bs = "[0x80 + cp div 0x40 mod 0x40, 0x80 + cp mod 0x40]"
    from three have enc: "utf8Encode cp = ?b0 # ?bs"
      by (simp add: utf8Encode_def)
    with oct have b0: "?b0 < 256" and bs: "\<forall>b \<in> set ?bs. b < 256"
      by simp_all
    have "continuationOctets (length ?bs) (concat (map percentEncode ?bs) @ t) = Some (?bs, t)"
      using bs by (rule continuationOctets_percentEncode)
    then have co: "continuationOctets 2
        (percentEncode (0x80 + cp div 0x40 mod 0x40) @ percentEncode (0x80 + cp mod 0x40) @ t)
        = Some (?bs, t)"
      by (simp add: numeral_2_eq_2)
    from utf8_three [OF three assms(2)] co show ?thesis
      unfolding enc by (simp add: decode_percent_octet [OF b0])
  next
    case four
    let ?b0 = "0xF0 + cp div 0x40000"
    let ?bs = "[0x80 + cp div 0x1000 mod 0x40, 0x80 + cp div 0x40 mod 0x40, 0x80 + cp mod 0x40]"
    from four have enc: "utf8Encode cp = ?b0 # ?bs"
      by (simp add: utf8Encode_def)
    with oct have b0: "?b0 < 256" and bs: "\<forall>b \<in> set ?bs. b < 256"
      by simp_all
    have "continuationOctets (length ?bs) (concat (map percentEncode ?bs) @ t) = Some (?bs, t)"
      using bs by (rule continuationOctets_percentEncode)
    then have co: "continuationOctets 3
        (percentEncode (0x80 + cp div 0x1000 mod 0x40) @ percentEncode (0x80 + cp div 0x40 mod 0x40)
         @ percentEncode (0x80 + cp mod 0x40) @ t) = Some (?bs, t)"
      by (simp add: numeral_3_eq_3)
    from utf8_four [OF four assms(1)] co show ?thesis
      unfolding enc by (simp add: decode_percent_octet [OF b0])
  qed
qed

lemma utf16Encode_unit: "utf16Encode (unat c) = [c]"
  using unat_lt [of c] by (simp add: utf16Encode_def)

lemma utf16Encode_pair:
  assumes "isLeadingSurrogate c" and "isTrailingSurrogate d"
  shows "utf16Encode (surrogatePairToCodePoint c d) = [c, d]"
    and "surrogatePairToCodePoint c d \<le> 0x10FFFF"
    and "0x10000 \<le> surrogatePairToCodePoint c d"
proof -
  define h where "h = unat c - 0xD800"
  define l where "l = unat d - 0xDC00"
  from assms have h: "h < 0x400" "unat c = 0xD800 + h" and l: "l < 0x400" "unat d = 0xDC00 + l"
    by (auto simp: h_def l_def isLeadingSurrogate_def isTrailingSurrogate_def)
  have cp: "surrogatePairToCodePoint c d = h * 0x400 + l + 0x10000"
    by (simp add: surrogatePairToCodePoint_def h_def l_def)
  from l(1) have dm: "(h * 0x400 + l) div 0x400 = h" "(h * 0x400 + l) mod 0x400 = l"
    by simp_all
  have "of_nat (0xD800 + h) = c" "of_nat (0xDC00 + l) = d"
    using h(2) l(2) by (metis of_nat_unat ucast_id)+
  with dm show "utf16Encode (surrogatePairToCodePoint c d) = [c, d]"
    by (simp add: cp utf16Encode_def)
  from h(1) l(1) show "surrogatePairToCodePoint c d \<le> 0x10FFFF"
    by (simp add: cp)
  show "0x10000 \<le> surrogatePairToCodePoint c d"
    by (simp add: cp)
qed

lemma emit_Inr: "emit s r = Inr t \<longleftrightarrow> (\<exists>t'. r = Inr t' \<and> t = s @ t')"
  by (cases r) (auto simp: emit_def)

lemma emit_Inr_simp [simp]: "emit s (Inr t) = Inr (s @ t)"
  by (simp add: emit_def)

lemma unescaped_not_special:
  "uriUnescaped c \<Longrightarrow> c \<noteq> 0x25 \<and> c \<noteq> 0x2F \<and> \<not> isLeadingSurrogate c \<and> \<not> isTrailingSurrogate c"
  by (auto simp: uriUnescaped_def isLeadingSurrogate_def isTrailingSurrogate_def Let_def)

lemma decode_encode:
  "encodeURIComponent s = Inr t \<Longrightarrow> decodeURIComponent t = Inr s"
proof (induction s arbitrary: t rule: encodeURIComponent.induct)
  case 1
  then show ?case
    by simp
next
  case (2 c cs)
  show ?case
  proof (cases "uriUnescaped c")
    case True
    with "2.prems" obtain t' where t': "encodeURIComponent cs = Inr t'" "t = c # t'"
      by (auto simp: emit_Inr)
    with True "2.IH"(1) have "decodeURIComponent t' = Inr cs"
      by simp
    with True t' show ?thesis
      using unescaped_not_special [of c] by simp
  next
    case False
    note unesc = this
    show ?thesis
    proof (cases "isLeadingSurrogate c")
      case True
      then have nt: "\<not> isTrailingSurrogate c"
        by (auto simp: isLeadingSurrogate_def isTrailingSurrogate_def)
      with unesc True "2.prems" obtain d ds t' where
        cs: "cs = d # ds" and d: "isTrailingSurrogate d"
        and t': "encodeURIComponent ds = Inr t'"
          "t = concat (map percentEncode (utf8Encode (surrogatePairToCodePoint c d))) @ t'"
        by (auto simp: emit_Inr split: list.splits if_splits)
      from unesc nt True cs d t' "2.IH"(2) have "decodeURIComponent t' = Inr ds"
        by simp
      moreover have "\<not> (0xD800 \<le> surrogatePairToCodePoint c d \<and> surrogatePairToCodePoint c d \<le> 0xDFFF)"
        using utf16Encode_pair(3) [OF True d] by simp
      ultimately show ?thesis
        using utf16Encode_pair [OF True d] cs t'(2)
        by (simp add: decode_encoded_code_point)
    next
      case False
      with unesc "2.prems" obtain t' where nt: "\<not> isTrailingSurrogate c"
        and t': "encodeURIComponent cs = Inr t'"
          "t = concat (map percentEncode (utf8Encode (unat c))) @ t'"
        by (auto simp: emit_Inr split: if_splits)
      from unesc nt False t' "2.IH"(3) have "decodeURIComponent t' = Inr cs"
        by simp
      moreover from False nt have "\<not> (0xD800 \<le> unat c \<and> unat c \<le> 0xDFFF)"
        by (auto simp: isLeadingSurrogate_def isTrailingSurrogate_def)
      moreover have "unat c \<le> 0x10FFFF"
        using unat_lt [of c] by simp
      ultimately show ?thesis
        using t'(2) by (simp add: decode_encoded_code_point utf16Encode_unit)
    qed
  qed
qed

lemma encode_wellFormed:
  "(\<exists>t. encodeURIComponent s = Inr t) \<longleftrightarrow> isWellFormed s"
proof (induction s rule: encodeURIComponent.induct)
  case 1
  then show ?case
    by simp
next
  case (2 c cs)
  show ?case
  proof (cases "uriUnescaped c")
    case True
    with "2.IH"(1) show ?thesis
      using unescaped_not_special [of c] by (auto simp: emit_Inr)
  next
    case False
    note unesc = this
    show ?thesis
    proof (cases "isLeadingSurrogate c")
      case True
      then have nt: "\<not> isTrailingSurrogate c"
        by (auto simp: isLeadingSurrogate_def isTrailingSurrogate_def)
      show ?thesis
      proof (cases cs)
        case Nil
        with unesc True nt show ?thesis
          by simp
      next
        case (Cons d ds)
        with unesc True nt "2.IH"(2) show ?thesis
          by (auto simp: emit_Inr)
      qed
    next
      case False
      with unesc "2.IH"(3) show ?thesis
        by (auto simp: emit_Inr)
    qed
  qed
qed

lemma hexDigit_not_slash: "d < 16 \<Longrightarrow> hexDigit d \<noteq> 0x2F"
proof
  assume d: "d < 16" and eq: "hexDigit d = 0x2F"
  have "hexValue 0x2F = None"
    by (simp add: hexValue_def)
  moreover from d have "hexValue (hexDigit d) = Some d"
    by (rule hexValue_hexDigit)
  ultimately show False
    using eq by simp
qed

lemma percentEncode_no_slash: "b < 256 \<Longrightarrow> 0x2F \<notin> set (percentEncode b)"
  using hexDigit_not_slash [of "b div 16"] hexDigit_not_slash [of "b mod 16"]
  by (auto simp: percentEncode_def less_mult_imp_div_less)

lemma encoded_code_point_no_slash:
  "cp \<le> 0x10FFFF \<Longrightarrow> 0x2F \<notin> set (concat (map percentEncode (utf8Encode cp)))"
  using utf8Encode_octets [of cp] percentEncode_no_slash by auto

lemma encode_no_slash: "encodeURIComponent s = Inr t \<Longrightarrow> 0x2F \<notin> set t"
proof (induction s arbitrary: t rule: encodeURIComponent.induct)
  case 1
  then show ?case
    by simp
next
  case (2 c cs)
  show ?case
  proof (cases "uriUnescaped c")
    case True
    with "2.prems" "2.IH"(1) show ?thesis
      using unescaped_not_special [of c] by (auto simp: emit_Inr)
  next
    case False
    note unesc = this
    show ?thesis
    proof (cases "isLeadingSurrogate c")
      case True
      then have nt: "\<not> isTrailingSurrogate c"
        by (auto simp: isLeadingSurrogate_def isTrailingSurrogate_def)
      with unesc True "2.prems" obtain d ds t' where
        cs: "cs = d # ds" and d: "isTrailingSurrogate d"
        and t': "encodeURIComponent ds = Inr t'"
          "t = concat (map percentEncode (utf8Encode (surrogatePairToCodePoint c d))) @ t'"
        by (auto simp: emit_Inr split: list.splits if_splits)
      from unesc nt True cs d t' "2.IH"(2) have "0x2F \<notin> set t'"
        by simp
      then show ?thesis
        using encoded_code_point_no_slash [OF utf16Encode_pair(2) [OF True d]] t'(2)
        by simp
    next
      case False
      with unesc "2.prems" obtain t' where nt: "\<not> isTrailingSurrogate c"
        and t': "encodeURIComponent cs = Inr t'"
          "t = concat (map percentEncode (utf8Encode (unat c))) @ t'"
        by (auto simp: emit_Inr split: if_splits)
      from unesc nt False t' "2.IH"(3) have "0x2F \<notin> set t'"
        by simp
      moreover have "unat c \<le> 0x10FFFF"
        using unat_lt [of c] by simp
      ultimately show ?thesis
        using encoded_code_point_no_slash [of "unat c"] t'(2) by simp
    qed
  qed
qed

lemma splitOn_nonempty: "splitOn sep seg s \<noteq> []"
  by (induction s arbitrary: seg) simp_all

lemma join_Cons: "ss \<noteq> [] \<Longrightarrow> join sep (s # ss) = s @ sep @ join sep ss"
  by (cases ss) simp_all

lemma join_splitOn: "join [sep] (splitOn sep seg s) = seg @ s"
  by (induction s arbitrary: seg) (simp_all add: join_Cons splitOn_nonempty)

lemma splitOn_append: "sep \<notin> set s \<Longrightarrow> splitOn sep seg (s @ r) = splitOn sep (seg @ s) r"
  by (induction s arbitrary: seg) auto

lemma splitOn_join:
  "\<forall>x \<in> set (s # ss). sep \<notin> set x \<Longrightarrow> splitOn sep seg (join [sep] (s # ss)) = (seg @ s) # ss"
proof (induction ss arbitrary: s seg)
  case Nil
  then show ?case
    using splitOn_append [of sep s seg "[]"] by simp
next
  case (Cons x xs)
  then have "splitOn sep [] (join [sep] (x # xs)) = x # xs"
    by (metis append_Nil list.set_intros(2))
  with Cons.prems show ?case
    using splitOn_append [of sep s seg "sep # join [sep] (x # xs)"] by simp
qed

lemma wellFormed_around:
  "\<not> isLeadingSurrogate x \<Longrightarrow> \<not> isTrailingSurrogate x \<Longrightarrow>
   isWellFormed (a @ x # b) \<longleftrightarrow> isWellFormed a \<and> isWellFormed b"
  by (induction a rule: isWellFormed.induct) (auto split: list.splits)

lemma slash_not_surrogate: "\<not> isLeadingSurrogate 0x2F \<and> \<not> isTrailingSurrogate 0x2F"
  by (simp add: isLeadingSurrogate_def isTrailingSurrogate_def)

lemma wellFormed_segments:
  "(\<forall>x \<in> set (splitOn 0x2F seg s). isWellFormed x) \<longleftrightarrow> isWellFormed (seg @ s)"
proof (induction s arbitrary: seg)
  case Nil
  then show ?case
    by simp
next
  case (Cons c cs)
  show ?case
  proof (cases "c = 0x2F")
    case True
    with Cons.IH [of "[]"] show ?thesis
      using wellFormed_around [of "0x2F" seg cs] slash_not_surrogate by simp
  next
    case False
    with Cons.IH [of "seg @ [c]"] show ?thesis
      by simp
  qed
qed

lemma mapResult_total:
  "(\<exists>ys. mapResult f xs = Inr ys) \<longleftrightarrow> (\<forall>x \<in> set xs. \<exists>y. f x = Inr y)"
  by (induction xs) (auto split: sum.splits)

lemma mapResult_error:
  "mapResult f xs = Inl e \<longleftrightarrow> \<not> (\<exists>ys. mapResult f xs = Inr ys)" for e :: uri_error
proof (cases "mapResult f xs")
  case (Inl a)
  then show ?thesis
    by (cases a; cases e) simp
next
  case (Inr ys)
  then show ?thesis
    by simp
qed

lemma mapResult_decode_encode:
  "mapResult encodeURIComponent xs = Inr ys \<Longrightarrow> mapResult decodeURIComponent ys = Inr xs"
proof (induction xs arbitrary: ys)
  case Nil
  then show ?case
    by simp
next
  case (Cons x xs)
  then obtain y ys' where "encodeURIComponent x = Inr y" "mapResult encodeURIComponent xs = Inr ys'"
    "ys = y # ys'"
    by (auto split: sum.splits)
  with Cons.IH show ?case
    by (simp add: decode_encode)
qed

lemma mapResult_no_slash:
  "mapResult encodeURIComponent xs = Inr ys \<Longrightarrow> \<forall>y \<in> set ys. 0x2F \<notin> set y"
proof (induction xs arbitrary: ys)
  case Nil
  then show ?case
    by simp
next
  case (Cons x xs)
  then obtain y ys' where "encodeURIComponent x = Inr y" "mapResult encodeURIComponent xs = Inr ys'"
    "ys = y # ys'"
    by (auto split: sum.splits)
  with Cons.IH show ?case
    by (simp add: encode_no_slash)
qed

lemma mapResult_length: "mapResult f xs = Inr ys \<Longrightarrow> length ys = length xs"
  by (induction xs arbitrary: ys) (auto split: sum.splits)

lemma js_slash: "js ''/'' = [0x2F]"
  by (simp add: js_def)

lemma fileUrlToPath_encoded:
  assumes "mapResult encodeURIComponent (split 0x2F path) = Inr encoded"
  shows "fileUrlToPath (js ''file://'' @ join (js ''/'') encoded) = Inr path"
proof -
  from assms have "length encoded = length (split 0x2F path)"
    by (rule mapResult_length)
  then have "encoded \<noteq> []"
    by (auto simp: split_def splitOn_nonempty)
  then obtain s ss where e: "encoded = s # ss"
    by (cases encoded) auto
  from assms have "\<forall>y \<in> set encoded. 0x2F \<notin> set y"
    by (rule mapResult_no_slash)
  with e have "splitOn 0x2F [] (join [0x2F] (s # ss)) = s # ss"
    using splitOn_join [of s ss "0x2F" "[]"] by simp
  then have "split 0x2F (join (js ''/'') encoded) = encoded"
    by (simp add: split_def js_slash e)
  moreover from assms have "mapResult decodeURIComponent encoded = Inr (split 0x2F path)"
    by (rule mapResult_decode_encode)
  moreover have "join (js ''/'') (split 0x2F path) = path"
    by (simp add: js_slash split_def join_splitOn)
  ultimately show ?thesis
    by (simp add: fileUrlToPath_def)
qed

text \<open>
  C5. For a path that is a well-formed string (no unpaired surrogate),
  \<open>pathToFileUrl\<close> returns \<open>file://\<close> followed by the percent-encoded segments of the
  path, joined with \<open>/\<close>; stripping the prefix from that URL, splitting on \<open>/\<close>,
  percent-decoding each segment and joining with \<open>/\<close> gives the path back. For a path
  with an unpaired surrogate, \<open>encodeURIComponent\<close> throws and no URL is returned.
\<close>

theorem pathToFileUrl_round_trip:
  "(isWellFormed path \<longrightarrow>
      (\<exists>encoded. mapResult encodeURIComponent (split 0x2F path) = Inr encoded
         \<and> pathToFileUrl path = Inr (js ''file://'' @ join (js ''/'') encoded)
         \<and> fileUrlToPath (js ''file://'' @ join (js ''/'') encoded) = Inr path))
   \<and> (\<not> isWellFormed path \<longrightarrow> pathToFileUrl path = Inl URIError)"
proof -
  have total: "(\<exists>encoded. mapResult encodeURIComponent (split 0x2F path) = Inr encoded)
      \<longleftrightarrow> isWellFormed path"
    using wellFormed_segments [of "[]" path]
    by (simp add: mapResult_total encode_wellFormed split_def)
  have "\<exists>encoded. mapResult encodeURIComponent (split 0x2F path) = Inr encoded
         \<and> pathToFileUrl path = Inr (js ''file://'' @ join (js ''/'') encoded)
         \<and> fileUrlToPath (js ''file://'' @ join (js ''/'') encoded) = Inr path"
    if "isWellFormed path"
  proof -
    from that total obtain encoded where
      e: "mapResult encodeURIComponent (split 0x2F path) = Inr encoded"
      by blast
    then have "pathToFileUrl path = Inr (js ''file://'' @ join (js ''/'') encoded)"
      by (simp add: pathToFileUrl_def)
    with e fileUrlToPath_encoded [OF e] show ?thesis
      by blast
  qed
  moreover have "pathToFileUrl path = Inl URIError" if "\<not> isWellFormed path"
  proof -
    from that total have "mapResult encodeURIComponent (split 0x2F path) = Inl URIError"
      by (simp add: mapResult_error)
    then show ?thesis
      by (simp add: pathToFileUrl_def)
  qed
  ultimately show ?thesis
    by blast
qed

lemma pathToFileUrl_examplePath:
  "pathToFileUrl examplePath = Inr (js ''file:///Users/me/My%20Library/%C3%A9%E2%82%AC%F0%9F%93%9A.png'')"
  by (simp add: examplePath_def pathToFileUrl_def split_def js_def uriUnescaped_def
      isLeadingSurrogate_def isTrailingSurrogate_def utf8Encode_def percentEncode_def hexDigit_def
      surrogatePairToCodePoint_def)

theorem pathToFileUrl_round_trip_witness:
  "isWellFormed examplePath
   \<and> pathToFileUrl examplePath
       = Inr (js ''file:///Users/me/My%20Library/%C3%A9%E2%82%AC%F0%9F%93%9A.png'')
   \<and> fileUrlToPath (js ''file:///Users/me/My%20Library/%C3%A9%E2%82%AC%F0%9F%93%9A.png'')
       = Inr examplePath"
proof -
  have wf: "isWellFormed examplePath"
    by (simp add: examplePath_def js_def isLeadingSurrogate_def isTrailingSurrogate_def)
  with pathToFileUrl_round_trip [of examplePath] obtain encoded where
    "pathToFileUrl examplePath = Inr (js ''file://'' @ join (js ''/'') encoded)"
    "fileUrlToPath (js ''file://'' @ join (js ''/'') encoded) = Inr examplePath"
    by blast
  with wf pathToFileUrl_examplePath show ?thesis
    by simp
qed

text \<open>
  Not every path has a URL: on a path with a lone leading surrogate the call throws.
\<close>

theorem pathToFileUrl_unpaired_surrogate:
  "pathToFileUrl (js ''/tmp/'' @ [0xD83D] @ js ''.png'') = Inl URIError"
  by (simp add: pathToFileUrl_def split_def js_def uriUnescaped_def isLeadingSurrogate_def
      isTrailingSurrogate_def emit_def)

end
